theory Spec2Isabelle
  imports Complex_Main
begin

section \<open>Values of the host language\<close>

text \<open>
  A \<open>Date\<close> is its number of milliseconds since the epoch. Only valid dates are
  values of this type; where the source can build an invalid one, the model says so.
\<close>

type_synonym date = int

text \<open>
  A JavaScript number as far as the code distinguishes it: not-a-number, the two infinities
  and the finite values. \<open>JSON.parse\<close> and \<open>parseFloat\<close> produce all four kinds.
\<close>

datatype jsnum = NaN | NInf | Fin real | PInf

text \<open>
  A column of type \<open>real\<close> holds a single-precision number: of a finite value the nearest
  one, a tie going to the even significand. \<open>quantum\<close> is the spacing of the
  single-precision numbers around a value (24 bits of significand, the exponent not below
  -126). A value beyond the range of the type is rejected by the database; the statement
  then throws, and this function is not asked.
\<close>

definition roundHalfEven :: "real \<Rightarrow> int" where
  "roundHalfEven x =
     (if x - of_int \<lfloor>x\<rfloor> < 1 / 2 then \<lfloor>x\<rfloor>
      else if 1 / 2 < x - of_int \<lfloor>x\<rfloor> then \<lfloor>x\<rfloor> + 1
      else if even \<lfloor>x\<rfloor> then \<lfloor>x\<rfloor> else \<lfloor>x\<rfloor> + 1)"

definition quantum :: "real \<Rightarrow> real" where
  "quantum x = 2 powr (of_int (max (- 126) \<lfloor>log 2 \<bar>x\<bar>\<rfloor>) - 23)"

definition single :: "real \<Rightarrow> real" where
  "single x = (if x = 0 then 0 else of_int (roundHalfEven (x / quantum x)) * quantum x)"

fun real4 :: "jsnum \<Rightarrow> jsnum" where
  "real4 (Fin r) = Fin (single r)"
| "real4 NaN = NaN"
| "real4 NInf = NInf"
| "real4 PInf = PInf"

text \<open>
  A property of an object literal handed to the query builder: left out (or \<open>undefined\<close>),
  or given, as \<open>null\<close> (\<open>Given None\<close>) or as a value.
\<close>

datatype 'a supplied = Omitted | Given "'a option"

text \<open>\<open>x || 0\<close> on a number: zero and not-a-number are falsy.\<close>

fun orZero :: "jsnum \<Rightarrow> jsnum" where
  "orZero NaN = Fin 0"
| "orZero (Fin r) = Fin r"
| "orZero NInf = NInf"
| "orZero PInf = PInf"

text \<open>Whatever the source throws, as a value.\<close>

datatype error =
    ShopifyApiError nat
  | NetworkError
  | StoreError
  | TagPushError
  | RangeError
  | CredentialsNotConfigured

section \<open>shared/schema.ts: the two tables\<close>

datatype EnrichmentStatus = Pending | Complete | Failed

text \<open>
  A row of \<open>customers\<close> (\<open>Customer = typeof customers.$inferSelect\<close>). A nullable column
  is an option; \<open>id\<close> is the identity column, \<open>enrichmentStatus\<close>, \<open>createdAt\<close> and
  \<open>updatedAt\<close> are \<open>notNull\<close>.
\<close>

record Customer =
  id' :: nat
  shopifyCustomerId :: int
  email :: "string option"
  phone :: "string option"
  firstName :: "string option"
  lastName :: "string option"
  city :: "string option"
  country :: "string option"
  province :: "string option"
  postalCode :: "string option"
  tags :: "string option"
  createdAtShopify :: "date option"
  updatedAtShopify :: "date option"
  lastOrderAt :: "date option"
  totalSpent :: "jsnum option"
  ordersCount :: "int option"
  genderInferred :: "string option"
  genderConfidence :: "jsnum option"
  enrichmentStatus :: EnrichmentStatus
  createdAt :: date
  updatedAt :: date

text \<open>
  \<open>InsertCustomer = typeof customers.$inferInsert\<close>: the external id is required, every
  other column may be left out. No caller in the repository supplies \<open>id\<close>, \<open>createdAt\<close>
  or \<open>updatedAt\<close>, so they are not fields here.
\<close>

record InsertCustomer =
  shopifyCustomerId :: int
  email :: "string supplied"
  phone :: "string supplied"
  firstName :: "string supplied"
  lastName :: "string supplied"
  city :: "string supplied"
  country :: "string supplied"
  province :: "string supplied"
  postalCode :: "string supplied"
  tags :: "string supplied"
  createdAtShopify :: "date supplied"
  updatedAtShopify :: "date supplied"
  lastOrderAt :: "date supplied"
  totalSpent :: "jsnum supplied"
  ordersCount :: "int supplied"
  genderInferred :: "string supplied"
  genderConfidence :: "jsnum supplied"
  enrichmentStatus :: "EnrichmentStatus option"

text \<open>
  The \<open>customers\<close> table: its rows in insertion order and the next value of the identity
  sequence behind \<open>id\<close>.
\<close>

record Store =
  customers :: "Customer list"
  customersSeq :: nat

definition emptyStore :: Store where
  "emptyStore = \<lparr> customers = [], customersSeq = 1 \<rparr>"

text \<open>The unique constraint on \<open>shopify_customer_id\<close>.\<close>

definition uniqueExternalIds :: "Store \<Rightarrow> bool" where
  "uniqueExternalIds st = distinct (map Customer.shopifyCustomerId (customers st))"

section \<open>server/storage.ts: DatabaseStorage\<close>

text \<open>
  What a column gets from a property of the statement: the given value, or \<open>other\<close> when
  the property is left out. In \<open>values\<close> the other value is the column default; in the
  \<open>set\<close> of \<open>onConflictDoUpdate\<close> it is the stored value, since the query builder drops
  the properties that are \<open>undefined\<close> from the update.
\<close>

definition col :: "'a supplied \<Rightarrow> 'a option \<Rightarrow> 'a option" where
  "col v other = (case v of Omitted \<Rightarrow> other | Given x \<Rightarrow> x)"

text \<open>The same for a column of type \<open>real\<close>, which holds the given number in single precision.\<close>

definition colReal :: "jsnum supplied \<Rightarrow> jsnum option \<Rightarrow> jsnum option" where
  "colReal v other = (case v of Omitted \<Rightarrow> other | Given x \<Rightarrow> map_option real4 x)"

text \<open>The row \<open>.values(customer)\<close> inserts when the external id is new.\<close>

definition insertValues :: "date \<Rightarrow> nat \<Rightarrow> InsertCustomer \<Rightarrow> Customer" where
  "insertValues now k c =
     \<lparr> Customer.id' = k,
       Customer.shopifyCustomerId = InsertCustomer.shopifyCustomerId c,
       Customer.email = col (InsertCustomer.email c) None,
       Customer.phone = col (InsertCustomer.phone c) None,
       Customer.firstName = col (InsertCustomer.firstName c) None,
       Customer.lastName = col (InsertCustomer.lastName c) None,
       Customer.city = col (InsertCustomer.city c) None,
       Customer.country = col (InsertCustomer.country c) None,
       Customer.province = col (InsertCustomer.province c) None,
       Customer.postalCode = col (InsertCustomer.postalCode c) None,
       Customer.tags = col (InsertCustomer.tags c) None,
       Customer.createdAtShopify = col (InsertCustomer.createdAtShopify c) None,
       Customer.updatedAtShopify = col (InsertCustomer.updatedAtShopify c) None,
       Customer.lastOrderAt = col (InsertCustomer.lastOrderAt c) None,
       Customer.totalSpent = colReal (InsertCustomer.totalSpent c) (Some (Fin 0)),
       Customer.ordersCount = col (InsertCustomer.ordersCount c) (Some 0),
       Customer.genderInferred = col (InsertCustomer.genderInferred c) None,
       Customer.genderConfidence = colReal (InsertCustomer.genderConfidence c) None,
       Customer.enrichmentStatus =
         (case InsertCustomer.enrichmentStatus c of None \<Rightarrow> Pending | Some s \<Rightarrow> s),
       Customer.createdAt = now,
       Customer.updatedAt = now \<rparr>"

text \<open>
  The \<open>set\<close> of \<open>onConflictDoUpdate\<close>, applied to the stored row: thirteen source columns
  and \<open>updatedAt\<close>. \<open>createdAtShopify\<close>, \<open>genderInferred\<close>, \<open>genderConfidence\<close> and
  \<open>enrichmentStatus\<close> are not in the list.
\<close>

definition conflictSet :: "date \<Rightarrow> InsertCustomer \<Rightarrow> Customer \<Rightarrow> Customer" where
  "conflictSet now c r =
     r\<lparr> Customer.email := col (InsertCustomer.email c) (Customer.email r),
        Customer.phone := col (InsertCustomer.phone c) (Customer.phone r),
        Customer.firstName := col (InsertCustomer.firstName c) (Customer.firstName r),
        Customer.lastName := col (InsertCustomer.lastName c) (Customer.lastName r),
        Customer.city := col (InsertCustomer.city c) (Customer.city r),
        Customer.country := col (InsertCustomer.country c) (Customer.country r),
        Customer.province := col (InsertCustomer.province c) (Customer.province r),
        Customer.postalCode := col (InsertCustomer.postalCode c) (Customer.postalCode r),
        Customer.tags := col (InsertCustomer.tags c) (Customer.tags r),
        Customer.updatedAtShopify :=
          col (InsertCustomer.updatedAtShopify c) (Customer.updatedAtShopify r),
        Customer.lastOrderAt := col (InsertCustomer.lastOrderAt c) (Customer.lastOrderAt r),
        Customer.totalSpent := colReal (InsertCustomer.totalSpent c) (Customer.totalSpent r),
        Customer.ordersCount := col (InsertCustomer.ordersCount c) (Customer.ordersCount r),
        Customer.updatedAt := now \<rparr>"

definition getCustomerByShopifyId :: "Store \<Rightarrow> int \<Rightarrow> Customer option" where
  "getCustomerByShopifyId st shopifyId =
     find (\<lambda>r. Customer.shopifyCustomerId r = shopifyId) (customers st)"

text \<open>
  \<open>upsertCustomer\<close>: one \<open>INSERT ... ON CONFLICT (shopify_customer_id) DO UPDATE ...
  RETURNING *\<close>, at the time \<open>now\<close> that \<open>new Date()\<close> and \<open>defaultNow()\<close> read. The
  result is the returned row and the table afterwards. The identity sequence advances on
  both paths, as the database draws the value before it detects the conflict. A statement
  that the database rejects throws and changes nothing; callers model that branch.
\<close>

definition upsertCustomer :: "date \<Rightarrow> InsertCustomer \<Rightarrow> Store \<Rightarrow> Customer \<times> Store" where
  "upsertCustomer now c st =
     (case getCustomerByShopifyId st (InsertCustomer.shopifyCustomerId c) of
        None \<Rightarrow>
          (insertValues now (customersSeq st) c,
           \<lparr> customers = customers st @ [insertValues now (customersSeq st) c],
             customersSeq = Suc (customersSeq st) \<rparr>)
      | Some old \<Rightarrow>
          (conflictSet now c old,
           \<lparr> customers =
               map (\<lambda>r. if Customer.shopifyCustomerId r = InsertCustomer.shopifyCustomerId c
                         then conflictSet now c r else r) (customers st),
             customersSeq = Suc (customersSeq st) \<rparr>))"

text \<open>\<open>resetAllEnrichments\<close>: an \<open>UPDATE\<close> of every row; returns how many rows it touched.\<close>

definition resetAllEnrichments :: "date \<Rightarrow> Store \<Rightarrow> nat \<times> Store" where
  "resetAllEnrichments now st =
     (length (customers st),
      st\<lparr> customers :=
            map (\<lambda>r. r\<lparr> Customer.genderInferred := None,
                         Customer.genderConfidence := None,
                         Customer.enrichmentStatus := Pending,
                         Customer.updatedAt := now \<rparr>) (customers st) \<rparr>)"

section \<open>server/shopifyClient.ts: the normalised record\<close>

text \<open>
  The wire shape of a customer as the interface \<open>ShopifyCustomer\<close> types it. The two
  timestamps are the instants their ISO strings denote.
\<close>

record Address =
  city :: "string option"
  country :: "string option"
  province :: "string option"
  zip :: "string option"

record ShopifyCustomer =
  id' :: int
  email :: "string option"
  phone :: "string option"
  first_name :: "string option"
  last_name :: "string option"
  created_at :: date
  updated_at :: date
  tags :: string
  orders_count :: int
  total_spent :: string
  last_order_id :: "int option"
  default_address :: "Address option"

record TransformedCustomer =
  shopifyCustomerId :: int
  email :: "string option"
  phone :: "string option"
  firstName :: "string option"
  lastName :: "string option"
  city :: "string option"
  country :: "string option"
  province :: "string option"
  postalCode :: "string option"
  tags :: "string option"
  ordersCount :: int
  totalSpent :: jsnum
  createdAtShopify :: date
  updatedAtShopify :: date

text \<open>\<open>s || null\<close> on a string or \<open>null\<close>: the empty string is falsy.\<close>

fun orNull :: "string option \<Rightarrow> string option" where
  "orNull None = None"
| "orNull (Some s) = (if s = [] then None else Some s)"

text \<open>
  \<open>transformCustomer\<close>. The built-in \<open>parseFloat\<close> is a parameter;
  \<open>customer.default_address?.city\<close> is \<open>undefined\<close> without an address, and \<open>|| null\<close>
  makes it \<open>null\<close>.
\<close>

definition transformCustomer :: "(string \<Rightarrow> jsnum) \<Rightarrow> ShopifyCustomer \<Rightarrow> TransformedCustomer" where
  "transformCustomer parseFloat customer =
     \<lparr> TransformedCustomer.shopifyCustomerId = ShopifyCustomer.id' customer,
       TransformedCustomer.email = ShopifyCustomer.email customer,
       TransformedCustomer.phone = ShopifyCustomer.phone customer,
       TransformedCustomer.firstName = ShopifyCustomer.first_name customer,
       TransformedCustomer.lastName = ShopifyCustomer.last_name customer,
       TransformedCustomer.city =
         orNull (Option.bind (ShopifyCustomer.default_address customer) Address.city),
       TransformedCustomer.country =
         orNull (Option.bind (ShopifyCustomer.default_address customer) Address.country),
       TransformedCustomer.province =
         orNull (Option.bind (ShopifyCustomer.default_address customer) Address.province),
       TransformedCustomer.postalCode =
         orNull (Option.bind (ShopifyCustomer.default_address customer) Address.zip),
       TransformedCustomer.tags = orNull (Some (ShopifyCustomer.tags customer)),
       TransformedCustomer.ordersCount = ShopifyCustomer.orders_count customer,
       TransformedCustomer.totalSpent = orZero (parseFloat (ShopifyCustomer.total_spent customer)),
       TransformedCustomer.createdAtShopify = ShopifyCustomer.created_at customer,
       TransformedCustomer.updatedAtShopify = ShopifyCustomer.updated_at customer \<rparr>"

section \<open>server/shopifyClient.ts: requests to the source platform\<close>

text \<open>
  A request for customers: the first page (\<open>limit\<close>, \<open>updated_at_min\<close>) or a later one
  (\<open>limit\<close>, \<open>page_info\<close>).
\<close>

datatype request = FirstPage nat "date option" | NextPage nat string

text \<open>
  What the code reads of a response: the status, the seconds \<open>parseInt\<close> reads from
  \<open>Retry-After\<close>, the two numbers of \<open>X-Shopify-Shop-Api-Call-Limit\<close>, the \<open>page_info\<close>
  that the regular expression captures from the \<open>rel="next"\<close> entry of \<open>Link\<close>, and the
  \<open>customers\<close> of the JSON body. Each header is \<open>None\<close> when absent.
\<close>

record Response =
  status :: nat
  retryAfter :: "nat option"
  callLimit :: "(nat \<times> nat) option"
  nextPageInfo :: "string option"
  jsonCustomers :: "ShopifyCustomer list"

text \<open>\<open>fetch\<close> rejects, or resolves with a response.\<close>

datatype answer = Unreachable | Answer Response

text \<open>\<open>response.ok\<close>.\<close>

definition ok :: "Response \<Rightarrow> bool" where
  "ok r = (200 \<le> status r \<and> status r \<le> 299)"

text \<open>
  The module state of the client, \<open>lastRateLimitInfo\<close>, with two records of what the
  client did: how many requests it has sent (the platform answers the n-th request
  \<open>server n\<close>) and the delays it has taken, in milliseconds, oldest first.
\<close>

record Client =
  lastRateLimitInfo :: "nat \<times> nat"
  sent :: nat
  waits :: "nat list"

definition newClient :: Client where
  "newClient = \<lparr> lastRateLimitInfo = (0, 40), sent = 0, waits = [] \<rparr>"

text \<open>\<open>parseRateLimitHeader\<close>: \<open>current || 0\<close> and \<open>max || 40\<close>.\<close>

definition parseRateLimitHeader :: "(nat \<times> nat) option \<Rightarrow> nat \<times> nat" where
  "parseRateLimitHeader header =
     (case header of None \<Rightarrow> (0, 40) | Some (current, mx) \<Rightarrow> (current, if mx = 0 then 40 else mx))"

text \<open>\<open>lastRateLimitInfo.current >= lastRateLimitInfo.max - 5\<close>, without a subtraction.\<close>

definition nearLimit :: "Client \<Rightarrow> bool" where
  "nearLimit cl = (snd (lastRateLimitInfo cl) \<le> fst (lastRateLimitInfo cl) + 5)"

definition delay :: "nat \<Rightarrow> Client \<Rightarrow> Client" where
  "delay ms cl = cl\<lparr> waits := waits cl @ [ms] \<rparr>"

text \<open>
  \<open>shopifyFetch\<close>: waits two seconds near the limit, sends, records the call budget; on a
  429 it waits and calls itself with the same request, with no bound on the number of
  retries, so the function is partial. Any other status that is not a success is thrown.
\<close>

partial_function (option) shopifyFetch ::
  "bool \<Rightarrow> (nat \<Rightarrow> request \<Rightarrow> answer) \<Rightarrow> request \<Rightarrow> Client
     \<Rightarrow> ((error + ShopifyCustomer list) \<times> Client) option"
where
  "shopifyFetch configured server endpoint cl =
     (if \<not> configured then Some (Inl CredentialsNotConfigured, cl)
      else
        let cl1 = (if nearLimit cl then delay 2000 cl else cl)
        in case server (sent cl1) endpoint of
             Unreachable \<Rightarrow> Some (Inl NetworkError, cl1\<lparr> sent := Suc (sent cl1) \<rparr>)
           | Answer response \<Rightarrow>
               let cl2 = cl1\<lparr> sent := Suc (sent cl1),
                              lastRateLimitInfo := parseRateLimitHeader (callLimit response) \<rparr>
               in if status response = 429
                  then shopifyFetch configured server endpoint
                         (delay (case retryAfter response of None \<Rightarrow> 5000 | Some s \<Rightarrow> s * 1000) cl2)
                  else if \<not> ok response then Some (Inl (ShopifyApiError (status response)), cl2)
                  else Some (Inr (jsonCustomers response), cl2))"

text \<open>\<open>fetchCustomersPage\<close>, a single page through \<open>shopifyFetch\<close>.\<close>

definition fetchCustomersPage ::
  "bool \<Rightarrow> (string \<Rightarrow> jsnum) \<Rightarrow> (nat \<Rightarrow> request \<Rightarrow> answer) \<Rightarrow> string option \<Rightarrow> nat \<Rightarrow> Client
     \<Rightarrow> ((error + TransformedCustomer list) \<times> Client) option"
where
  "fetchCustomersPage configured parseFloat server pageInfo limit cl =
     map_option (\<lambda>(r, cl'). (map_sum (\<lambda>e. e) (map (transformCustomer parseFloat)) r, cl'))
       (shopifyFetch configured server
          (case pageInfo of
             None \<Rightarrow> FirstPage limit None
           | Some p \<Rightarrow> if p = [] then FirstPage limit None else NextPage limit p) cl)"

text \<open>A string or \<open>undefined\<close> as a condition: the empty string is falsy.\<close>

fun truthy :: "string option \<Rightarrow> bool" where
  "truthy None = False"
| "truthy (Some s) = (s \<noteq> [])"

text \<open>The request one turn of the loop of \<open>fetchAllCustomers\<close> sends.\<close>

definition pageRequest :: "date option \<Rightarrow> string option \<Rightarrow> request" where
  "pageRequest updatedAtMin pageInfo =
     (case pageInfo of
        None \<Rightarrow> FirstPage 250 updatedAtMin
      | Some p \<Rightarrow> if p = [] then FirstPage 250 updatedAtMin else NextPage 250 p)"

text \<open>The optional callback, on a page that is not empty.\<close>

definition callOnBatch ::
  "(TransformedCustomer list \<Rightarrow> 's \<Rightarrow> error option \<times> 's) option \<Rightarrow> TransformedCustomer list \<Rightarrow> 's
     \<Rightarrow> error option \<times> 's"
where
  "callOnBatch onBatch transformedCustomers s =
     (case onBatch of
        None \<Rightarrow> (None, s)
      | Some f \<Rightarrow> if transformedCustomers \<noteq> [] then f transformedCustomers s else (None, s))"

text \<open>
  The \<open>while (hasMore)\<close> loop of \<open>fetchAllCustomers\<close>, from the values of \<open>pageInfo\<close> and
  \<open>totalProcessed\<close> at the head of a turn. It sends with \<open>fetch\<close> itself, not through
  \<open>shopifyFetch\<close>: every status that is not a success is thrown, 429 included. The
  callback threads a state of its own, and what it throws ends the loop. A platform that
  keeps returning full pages with a cursor keeps the loop running.
\<close>

partial_function (option) fetchLoop ::
  "(string \<Rightarrow> jsnum) \<Rightarrow> (nat \<Rightarrow> request \<Rightarrow> answer) \<Rightarrow> date option
     \<Rightarrow> (TransformedCustomer list \<Rightarrow> 's \<Rightarrow> error option \<times> 's) option
     \<Rightarrow> string option \<Rightarrow> nat \<Rightarrow> Client \<Rightarrow> 's \<Rightarrow> ((error + nat) \<times> Client \<times> 's) option"
where
  "fetchLoop parseFloat server updatedAtMin onBatch pageInfo totalProcessed cl s =
     (case server (sent cl) (pageRequest updatedAtMin pageInfo) of
        Unreachable \<Rightarrow> Some (Inl NetworkError, cl\<lparr> sent := Suc (sent cl) \<rparr>, s)
      | Answer response \<Rightarrow>
          if \<not> ok response
          then Some (Inl (ShopifyApiError (status response)), cl\<lparr> sent := Suc (sent cl) \<rparr>, s)
          else
            let cl1 = cl\<lparr> sent := Suc (sent cl),
                           lastRateLimitInfo := parseRateLimitHeader (callLimit response) \<rparr>;
                transformedCustomers = map (transformCustomer parseFloat) (jsonCustomers response);
                called = callOnBatch onBatch transformedCustomers s
            in case fst called of
                 Some e \<Rightarrow> Some (Inl e, cl1, snd called)
               | None \<Rightarrow>
                   if truthy (nextPageInfo response) \<and> length (jsonCustomers response) = 250
                   then fetchLoop parseFloat server updatedAtMin onBatch (nextPageInfo response)
                          (totalProcessed + length transformedCustomers)
                          (delay (if nearLimit cl1 then 2000 else 500) cl1) (snd called)
                   else Some (Inr (totalProcessed + length transformedCustomers),
                              delay (if nearLimit cl1 then 2000 else 500) cl1, snd called))"

definition fetchAllCustomers ::
  "(string \<Rightarrow> jsnum) \<Rightarrow> (nat \<Rightarrow> request \<Rightarrow> answer) \<Rightarrow> date option
     \<Rightarrow> (TransformedCustomer list \<Rightarrow> 's \<Rightarrow> error option \<times> 's) option
     \<Rightarrow> Client \<Rightarrow> 's \<Rightarrow> ((error + nat) \<times> Client \<times> 's) option"
where
  "fetchAllCustomers parseFloat server updatedAtMin onBatch cl s =
     fetchLoop parseFloat server updatedAtMin onBatch None 0 cl s"

section \<open>Simulated sources\<close>

text \<open>
  A finite paginated source: a list of pages. Page \<open>k\<close> carries a cursor to page \<open>k + 1\<close>
  when there is one; the cursor of page \<open>k\<close> is a string of \<open>k\<close> characters. Every answer
  has status 200 and no other header.
\<close>

definition pageAnswer :: "ShopifyCustomer list list \<Rightarrow> nat \<Rightarrow> answer" where
  "pageAnswer pages k =
     Answer \<lparr> status = 200, retryAfter = None, callLimit = None,
              nextPageInfo = (if Suc k < length pages then Some (replicate (Suc k) CHR ''p'') else None),
              jsonCustomers = (if k < length pages then pages ! k else []) \<rparr>"

definition cursorOf :: "nat \<Rightarrow> string option" where
  "cursorOf k = (if k = 0 then None else Some (replicate k CHR ''p''))"

fun pagedSource :: "ShopifyCustomer list list \<Rightarrow> nat \<Rightarrow> request \<Rightarrow> answer" where
  "pagedSource pages n (FirstPage limit since) = pageAnswer pages 0"
| "pagedSource pages n (NextPage limit cursor) = pageAnswer pages (length cursor)"

text \<open>
  The pages of a source up to and including the first one that is the last or does not
  hold exactly 250 records.
\<close>

fun visited :: "'a list list \<Rightarrow> 'a list list" where
  "visited [] = []"
| "visited [p] = [p]"
| "visited (p # q # ps) = (if length p = 250 then p # visited (q # ps) else [p])"

text \<open>Every page but the last holds exactly 250 records.\<close>

fun fullPages :: "'a list list \<Rightarrow> bool" where
  "fullPages [] = True"
| "fullPages [p] = True"
| "fullPages (p # q # ps) = (length p = 250 \<and> fullPages (q # ps))"

text \<open>A callback that records the batches it is given.\<close>

definition recordBatch ::
  "TransformedCustomer list \<Rightarrow> TransformedCustomer list list \<Rightarrow> error option \<times> TransformedCustomer list list"
where
  "recordBatch batch seen = (None, seen @ [batch])"

text \<open>A platform that answers the first request with 429 and every later one with an empty page.\<close>

definition emptyPage :: Response where
  "emptyPage = \<lparr> status = 200, retryAfter = None, callLimit = None, nextPageInfo = None, jsonCustomers = [] \<rparr>"

definition busyOnce :: "nat \<Rightarrow> request \<Rightarrow> answer" where
  "busyOnce n req = (if n = 0 then Answer (emptyPage\<lparr> status := 429, retryAfter := Some 1 \<rparr>)
                     else Answer emptyPage)"

section \<open>server/syncJob.ts: the batch callback\<close>

record SyncCounts =
  processed :: nat
  created :: nat
  updated :: nat

definition zeroCounts :: SyncCounts where
  "zeroCounts = \<lparr> processed = 0, created = 0, updated = 0 \<rparr>"

text \<open>
  \<open>insertData\<close> of \<open>onBatch\<close>: the source fields of the fetched record and the enrichment
  fields of the row read just before (\<open>existing?.genderInferred\<close> is \<open>undefined\<close> when
  there is no row, and the stored value, possibly \<open>null\<close>, when there is one).
  \<open>lastOrderAt\<close> is never supplied.
\<close>

definition insertData :: "Customer option \<Rightarrow> TransformedCustomer \<Rightarrow> InsertCustomer" where
  "insertData existing customer =
     \<lparr> InsertCustomer.shopifyCustomerId = TransformedCustomer.shopifyCustomerId customer,
       InsertCustomer.email = Given (TransformedCustomer.email customer),
       InsertCustomer.phone = Given (TransformedCustomer.phone customer),
       InsertCustomer.firstName = Given (TransformedCustomer.firstName customer),
       InsertCustomer.lastName = Given (TransformedCustomer.lastName customer),
       InsertCustomer.city = Given (TransformedCustomer.city customer),
       InsertCustomer.country = Given (TransformedCustomer.country customer),
       InsertCustomer.province = Given (TransformedCustomer.province customer),
       InsertCustomer.postalCode = Given (TransformedCustomer.postalCode customer),
       InsertCustomer.tags = Given (TransformedCustomer.tags customer),
       InsertCustomer.createdAtShopify = Given (Some (TransformedCustomer.createdAtShopify customer)),
       InsertCustomer.updatedAtShopify = Given (Some (TransformedCustomer.updatedAtShopify customer)),
       InsertCustomer.lastOrderAt = Omitted,
       InsertCustomer.totalSpent = Given (Some (TransformedCustomer.totalSpent customer)),
       InsertCustomer.ordersCount = Given (Some (TransformedCustomer.ordersCount customer)),
       InsertCustomer.genderInferred =
         (case existing of None \<Rightarrow> Omitted | Some e \<Rightarrow> Given (Customer.genderInferred e)),
       InsertCustomer.genderConfidence =
         (case existing of None \<Rightarrow> Omitted | Some e \<Rightarrow> Given (Customer.genderConfidence e)),
       InsertCustomer.enrichmentStatus =
         Some (case existing of None \<Rightarrow> Pending | Some e \<Rightarrow> Customer.enrichmentStatus e) \<rparr>"

text \<open>
  What can go wrong while one record of a batch is processed: the read of the existing
  row, the upsert, or the push of the gender tag to the source platform (after the upsert,
  when \<open>SYNC_GENDER_TO_TAGS\<close> is on). The tag push changes the platform only, so it is in
  the model as the exception it may raise.
\<close>

datatype fault = NoFault | ReadFails | WriteFails | TagFails

text \<open>
  \<open>onBatch\<close>: the records of a page in order, threading the table and the counters of the
  run. \<open>faults\<close> says which records meet an exception; the first one ends the batch, and
  what was written before it stays written.
\<close>

fun onBatch ::
  "(TransformedCustomer \<Rightarrow> fault) \<Rightarrow> date \<Rightarrow> TransformedCustomer list \<Rightarrow> Store \<times> SyncCounts
     \<Rightarrow> error option \<times> (Store \<times> SyncCounts)"
where
  "onBatch faults now [] (st, n) = (None, (st, n))"
| "onBatch faults now (customer # rest) (st, n) =
     (if faults customer = ReadFails then (Some StoreError, (st, n))
      else
        let existing = getCustomerByShopifyId st (TransformedCustomer.shopifyCustomerId customer)
        in if faults customer = WriteFails then (Some StoreError, (st, n))
           else
             let st' = snd (upsertCustomer now (insertData existing customer) st)
             in if faults customer = TagFails then (Some TagPushError, (st', n))
                else onBatch faults now rest
                       (st', n\<lparr> processed := Suc (processed n),
                               created := (if existing = None then Suc (created n) else created n),
                               updated := (if existing = None then updated n else Suc (updated n)) \<rparr>))"

section \<open>server/routes.ts: the webhook receivers\<close>

text \<open>
  \<open>req.body\<close> of a webhook is any JSON, so a property may be missing. \<open>id\<close>,
  \<open>orders_count\<close> and \<open>total_spent\<close> are \<open>None\<close> when missing; \<open>created_at\<close> and
  \<open>updated_at\<close> are the instant \<open>new Date(...)\<close> makes of the property, \<open>None\<close> when that
  is an invalid date; \<open>default_address\<close> is \<open>None\<close> when missing or \<open>null\<close>.
\<close>

record WebhookAddress =
  city :: "string supplied"
  country :: "string supplied"
  province :: "string supplied"
  zip :: "string supplied"

record WebhookCustomer =
  id' :: "int option"
  email :: "string supplied"
  phone :: "string supplied"
  first_name :: "string supplied"
  last_name :: "string supplied"
  default_address :: "WebhookAddress option"
  tags :: "string supplied"
  orders_count :: "int option"
  total_spent :: "string option"
  created_at :: "date option"
  updated_at :: "date option"

text \<open>
  \<open>verifyWebhookSignature\<close> (shopifyClient.ts). The secret is the environment's, the keyed
  hash is a parameter. A secret that is not set or is empty is falsy. \<open>timingSafeEqual\<close>
  throws on buffers of different lengths.
\<close>

definition verifyWebhookSignature ::
  "string option \<Rightarrow> (string \<Rightarrow> string \<Rightarrow> string) \<Rightarrow> string \<Rightarrow> string \<Rightarrow> error + bool"
where
  "verifyWebhookSignature secret hmac body signature =
     (case secret of
        None \<Rightarrow> Inr False
      | Some k \<Rightarrow>
          if k = [] then Inr False
          else if length (hmac k body) \<noteq> length signature then Inl RangeError
          else Inr (hmac k body = signature))"

text \<open>\<open>customer.default_address?.f\<close>.\<close>

definition addressField ::
  "(WebhookAddress \<Rightarrow> string supplied) \<Rightarrow> WebhookAddress option \<Rightarrow> string supplied" where
  "addressField f a = (case a of None \<Rightarrow> Omitted | Some x \<Rightarrow> f x)"

text \<open>
  The object both receivers hand to \<open>upsertCustomer\<close>, but for its enrichment fields.
  There is none when the statement cannot be built or is rejected: no external id (the
  column is \<open>notNull\<close>) or an invalid date.
\<close>

definition webhookData ::
  "(string \<Rightarrow> jsnum) \<Rightarrow> WebhookCustomer \<Rightarrow> string supplied \<Rightarrow> jsnum supplied
     \<Rightarrow> EnrichmentStatus \<Rightarrow> InsertCustomer option"
where
  "webhookData parseFloat customer gender confidence enrichStatus =
     (case (WebhookCustomer.id' customer, WebhookCustomer.created_at customer,
            WebhookCustomer.updated_at customer) of
        (Some i, Some c, Some u) \<Rightarrow>
          Some \<lparr> InsertCustomer.shopifyCustomerId = i,
                 InsertCustomer.email = WebhookCustomer.email customer,
                 InsertCustomer.phone = WebhookCustomer.phone customer,
                 InsertCustomer.firstName = WebhookCustomer.first_name customer,
                 InsertCustomer.lastName = WebhookCustomer.last_name customer,
                 InsertCustomer.city =
                   addressField WebhookAddress.city (WebhookCustomer.default_address customer),
                 InsertCustomer.country =
                   addressField WebhookAddress.country (WebhookCustomer.default_address customer),
                 InsertCustomer.province =
                   addressField WebhookAddress.province (WebhookCustomer.default_address customer),
                 InsertCustomer.postalCode =
                   addressField WebhookAddress.zip (WebhookCustomer.default_address customer),
                 InsertCustomer.tags = WebhookCustomer.tags customer,
                 InsertCustomer.createdAtShopify = Given (Some c),
                 InsertCustomer.updatedAtShopify = Given (Some u),
                 InsertCustomer.lastOrderAt = Omitted,
                 InsertCustomer.totalSpent =
                   Given (Some (orZero (case WebhookCustomer.total_spent customer of
                                          None \<Rightarrow> NaN | Some t \<Rightarrow> parseFloat t))),
                 InsertCustomer.ordersCount =
                   Given (Some (case WebhookCustomer.orders_count customer of
                                  None \<Rightarrow> 0 | Some k \<Rightarrow> k)),
                 InsertCustomer.genderInferred = gender,
                 InsertCustomer.genderConfidence = confidence,
                 InsertCustomer.enrichmentStatus = Some enrichStatus \<rparr>
      | _ \<Rightarrow> None)"

text \<open>How a request ends: with a status code, or with an exception no handler answers.\<close>

datatype reply = Responded nat | Unanswered error

text \<open>The environment of the receivers: the secret, the keyed hash and \<open>parseFloat\<close> (\<open>floatOf\<close>).\<close>

record WebhookEnv =
  webhookSecret :: "string option"
  hmacSha256 :: "string \<Rightarrow> string \<Rightarrow> string"
  floatOf :: "string \<Rightarrow> jsnum"

text \<open>
  The signature check the two receivers share: \<open>None\<close> lets the request through, otherwise
  the reply is 401, or the exception of \<open>timingSafeEqual\<close>, which is raised before the
  \<open>try\<close>. An empty header is falsy.
\<close>

definition checkSignature :: "WebhookEnv \<Rightarrow> string option \<Rightarrow> string \<Rightarrow> reply option" where
  "checkSignature env signature rawBody =
     (case signature of
        None \<Rightarrow> Some (Responded 401)
      | Some sig \<Rightarrow>
          if sig = [] then Some (Responded 401)
          else (case verifyWebhookSignature (webhookSecret env) (hmacSha256 env) rawBody sig of
                  Inl e \<Rightarrow> Some (Unanswered e)
                | Inr valid \<Rightarrow> if valid then None else Some (Responded 401)))"

text \<open>
  \<open>POST /webhooks/customers/create\<close>: no read of the existing row, status \<open>pending\<close>, no
  gender fields.
\<close>

definition webhookCustomersCreate ::
  "WebhookEnv \<Rightarrow> date \<Rightarrow> string option \<Rightarrow> string \<Rightarrow> WebhookCustomer \<Rightarrow> Store \<Rightarrow> reply \<times> Store"
where
  "webhookCustomersCreate env now signature rawBody customer st =
     (case checkSignature env signature rawBody of
        Some r \<Rightarrow> (r, st)
      | None \<Rightarrow>
          (case webhookData (floatOf env) customer Omitted Omitted Pending of
             None \<Rightarrow> (Responded 500, st)
           | Some d \<Rightarrow> (Responded 200, snd (upsertCustomer now d st))))"

text \<open>
  \<open>POST /webhooks/customers/update\<close>: reads the existing row first and passes its
  enrichment fields on. Without an external id in the body the read finds nothing.
\<close>

definition webhookCustomersUpdate ::
  "WebhookEnv \<Rightarrow> date \<Rightarrow> string option \<Rightarrow> string \<Rightarrow> WebhookCustomer \<Rightarrow> Store \<Rightarrow> reply \<times> Store"
where
  "webhookCustomersUpdate env now signature rawBody customer st =
     (case checkSignature env signature rawBody of
        Some r \<Rightarrow> (r, st)
      | None \<Rightarrow>
          (let existing = Option.bind (WebhookCustomer.id' customer) (getCustomerByShopifyId st)
           in case webhookData (floatOf env) customer
                     (case existing of None \<Rightarrow> Omitted | Some e \<Rightarrow> Given (Customer.genderInferred e))
                     (case existing of None \<Rightarrow> Omitted | Some e \<Rightarrow> Given (Customer.genderConfidence e))
                     (case existing of None \<Rightarrow> Pending | Some e \<Rightarrow> Customer.enrichmentStatus e) of
                None \<Rightarrow> (Responded 500, st)
              | Some d \<Rightarrow> (Responded 200, snd (upsertCustomer now d st))))"

section \<open>server/enrichment.ts: inference\<close>

text \<open>
  A value \<open>JSON.parse\<close> returns. The pairs of \<open>JObj\<close> are the own properties of the
  object, each key once.
\<close>

datatype json =
    JNull
  | JBool bool
  | JNum jsnum
  | JStr string
  | JArr "json list"
  | JObj "(string \<times> json) list"

text \<open>
  What the call of the provider comes to: an exception (of the transport, of the API, or
  of reading \<open>choices[0].message.content\<close>), or the content, \<open>null\<close> or a string.
\<close>

datatype completion = ApiFailure | Content "string option"

record GenderInferenceResult =
  gender :: string
  confidence :: jsnum

definition unknownResult :: GenderInferenceResult where
  "unknownResult = \<lparr> gender = ''unknown'', confidence = Fin 0 \<rparr>"

text \<open>\<open>Math.min\<close> and \<open>Math.max\<close> of two numbers: not-a-number if either is.\<close>

fun mathMin :: "jsnum \<Rightarrow> jsnum \<Rightarrow> jsnum" where
  "mathMin NaN y = NaN"
| "mathMin x NaN = NaN"
| "mathMin NInf y = NInf"
| "mathMin x NInf = NInf"
| "mathMin PInf y = y"
| "mathMin x PInf = x"
| "mathMin (Fin a) (Fin b) = Fin (min a b)"

fun mathMax :: "jsnum \<Rightarrow> jsnum \<Rightarrow> jsnum" where
  "mathMax NaN y = NaN"
| "mathMax x NaN = NaN"
| "mathMax PInf y = PInf"
| "mathMax x PInf = PInf"
| "mathMax NInf y = y"
| "mathMax x NInf = x"
| "mathMax (Fin a) (Fin b) = Fin (max a b)"

text \<open>
  \<open>v || 0\<close> on a property that may be missing, as the number \<open>Math.min\<close> then makes of it.
  Missing, \<open>null\<close>, \<open>false\<close>, zero, not-a-number and the empty string are falsy and give 0.
  Of the rest, \<open>true\<close> is 1 and a number is itself; a string and an array go through the
  built-in conversion of their text, the parameter \<open>strNum\<close>; an object is not-a-number.
  Where the conversion of an array or an object throws, there is no number (\<open>None\<close>).
\<close>

text \<open>
  The conversion of an array or an object to a primitive throws when it meets an object
  that has a property \<open>toString\<close> of its own: the array joins the texts of its elements,
  an object has no other way to a text, and JSON cannot make the property callable.
\<close>

fun textThrows :: "json \<Rightarrow> bool" where
  "textThrows (JObj kv) = (''toString'' \<in> fst ` set kv)"
| "textThrows (JArr xs) = list_ex textThrows xs"
| "textThrows v = False"

fun orZeroNumber :: "(json \<Rightarrow> jsnum) \<Rightarrow> json option \<Rightarrow> jsnum option" where
  "orZeroNumber strNum None = Some (Fin 0)"
| "orZeroNumber strNum (Some JNull) = Some (Fin 0)"
| "orZeroNumber strNum (Some (JBool b)) = Some (Fin (if b then 1 else 0))"
| "orZeroNumber strNum (Some (JNum x)) = Some (orZero x)"
| "orZeroNumber strNum (Some (JStr s)) = Some (if s = [] then Fin 0 else strNum (JStr s))"
| "orZeroNumber strNum (Some (JArr xs)) =
     (if textThrows (JArr xs) then None else Some (strNum (JArr xs)))"
| "orZeroNumber strNum (Some (JObj kv)) =
     (if textThrows (JObj kv) then None else Some NaN)"

definition validGenders :: "string list" where
  "validGenders = [''male'', ''female'', ''unknown'']"

text \<open>
  The lines after \<open>JSON.parse\<close>, with the \<open>catch\<close> around them. Reading a property of
  \<open>null\<close> throws; a boolean, a number or a string has no property \<open>gender\<close>, and the
  assignment to one throws in a module; an array has none either and takes both
  assignments. \<open>includes\<close> compares with strict equality, so only a string can be valid.
\<close>

fun validated :: "(json \<Rightarrow> jsnum) \<Rightarrow> json \<Rightarrow> GenderInferenceResult" where
  "validated strNum JNull = unknownResult"
| "validated strNum (JBool b) = unknownResult"
| "validated strNum (JNum x) = unknownResult"
| "validated strNum (JStr s) = unknownResult"
| "validated strNum (JArr xs) = \<lparr> gender = ''unknown'', confidence = mathMax (Fin 0) (mathMin (Fin 1) (Fin 0)) \<rparr>"
| "validated strNum (JObj kv) =
     (case orZeroNumber strNum (map_of kv ''confidence'') of
        None \<Rightarrow> unknownResult
      | Some c \<Rightarrow>
          \<lparr> gender = (case map_of kv ''gender'' of
                        Some (JStr g) \<Rightarrow> if g \<in> set validGenders then g else ''unknown''
                      | _ \<Rightarrow> ''unknown''),
            confidence = mathMax (Fin 0) (mathMin (Fin 1) c) \<rparr>)"

text \<open>
  \<open>inferGender\<close>. The provider is a function of the four fields the prompt is built from;
  \<open>jsonParse\<close> is \<open>JSON.parse\<close>, \<open>None\<close> where it throws.
\<close>

definition inferGender ::
  "(string \<Rightarrow> json option) \<Rightarrow> (json \<Rightarrow> jsnum)
     \<Rightarrow> (string option \<times> string option \<times> string option \<times> string option \<Rightarrow> completion)
     \<Rightarrow> string option \<Rightarrow> string option \<Rightarrow> string option \<Rightarrow> string option
     \<Rightarrow> GenderInferenceResult"
where
  "inferGender jsonParse strNum provider firstName' lastName' email' country' =
     (case provider (firstName', lastName', email', country') of
        ApiFailure \<Rightarrow> unknownResult
      | Content None \<Rightarrow> unknownResult
      | Content (Some content) \<Rightarrow>
          if content = [] then unknownResult
          else (case jsonParse content of
                  None \<Rightarrow> unknownResult
                | Some result \<Rightarrow> validated strNum result))"

text \<open>A confidence within the unit interval.\<close>

fun inUnitInterval :: "jsnum \<Rightarrow> bool" where
  "inUnitInterval (Fin r) = (0 \<le> r \<and> r \<le> 1)"
| "inUnitInterval x = False"

text \<open>The confidence property of a parsed object is missing, \<open>null\<close>, a boolean or a number.\<close>

fun plainConfidence :: "json option \<Rightarrow> bool" where
  "plainConfidence None = True"
| "plainConfidence (Some JNull) = True"
| "plainConfidence (Some (JBool b)) = True"
| "plainConfidence (Some (JNum x)) = True"
| "plainConfidence (Some v) = False"

section \<open>server/enrichment.ts: the enrichment pass\<close>

text \<open>The two \<open>UPDATE ... WHERE id = customer.id\<close> of \<open>enrichPendingCustomers\<close>.\<close>

definition enrichUpdate :: "date \<Rightarrow> GenderInferenceResult \<Rightarrow> nat \<Rightarrow> Store \<Rightarrow> Store" where
  "enrichUpdate now result rowId st =
     st\<lparr> customers :=
           map (\<lambda>r. if Customer.id' r = rowId
                     then r\<lparr> Customer.genderInferred := Some (gender result),
                              Customer.genderConfidence := Some (real4 (confidence result)),
                              Customer.enrichmentStatus := Complete,
                              Customer.updatedAt := now \<rparr>
                     else r) (customers st) \<rparr>"

definition markFailed :: "date \<Rightarrow> nat \<Rightarrow> Store \<Rightarrow> Store" where
  "markFailed now rowId st =
     st\<lparr> customers :=
           map (\<lambda>r. if Customer.id' r = rowId
                     then r\<lparr> Customer.enrichmentStatus := Failed, Customer.updatedAt := now \<rparr>
                     else r) (customers st) \<rparr>"

text \<open>
  How the writes for one customer go: the update succeeds; or it throws and the \<open>catch\<close>
  marks the customer failed; or that write throws too and the exception leaves the
  function. \<open>inferGender\<close> never throws, and the write-back of the metafield has a
  \<open>try\<close> of its own and touches the platform only.
\<close>

datatype writes = WriteOk | UpdateThrows | BothThrow

fun enrichLoop ::
  "(Customer \<Rightarrow> GenderInferenceResult) \<Rightarrow> (Customer \<Rightarrow> writes) \<Rightarrow> date \<Rightarrow> Customer list \<Rightarrow> nat
     \<Rightarrow> Store \<Rightarrow> (error + nat) \<times> Store"
where
  "enrichLoop infer ws now [] enrichedCount st = (Inr enrichedCount, st)"
| "enrichLoop infer ws now (customer # rest) enrichedCount st =
     (case ws customer of
        WriteOk \<Rightarrow>
          enrichLoop infer ws now rest (Suc enrichedCount)
            (enrichUpdate now (infer customer) (Customer.id' customer) st)
      | UpdateThrows \<Rightarrow>
          enrichLoop infer ws now rest enrichedCount (markFailed now (Customer.id' customer) st)
      | BothThrow \<Rightarrow> (Inl StoreError, st))"

text \<open>
  \<open>enrichPendingCustomers\<close>: the first \<open>batchSize\<close> pending rows, here in table order (the
  query has no \<open>ORDER BY\<close>), each inferred and written.
\<close>

definition enrichPendingCustomers ::
  "(Customer \<Rightarrow> GenderInferenceResult) \<Rightarrow> (Customer \<Rightarrow> writes) \<Rightarrow> date \<Rightarrow> nat \<Rightarrow> Store
     \<Rightarrow> (error + nat) \<times> Store"
where
  "enrichPendingCustomers infer ws now batchSize st =
     (let pendingCustomers =
            take batchSize (filter (\<lambda>r. Customer.enrichmentStatus r = Pending) (customers st))
      in if pendingCustomers = [] then (Inr 0, st)
         else enrichLoop infer ws now pendingCustomers 0 st)"

text \<open>The inference of a stored customer, as \<open>enrichPendingCustomers\<close> calls it.\<close>

definition inferCustomer ::
  "(string \<Rightarrow> json option) \<Rightarrow> (json \<Rightarrow> jsnum)
     \<Rightarrow> (string option \<times> string option \<times> string option \<times> string option \<Rightarrow> completion)
     \<Rightarrow> Customer \<Rightarrow> GenderInferenceResult"
where
  "inferCustomer jsonParse strNum provider customer =
     inferGender jsonParse strNum provider (Customer.firstName customer)
       (Customer.lastName customer) (Customer.email customer) (Customer.country customer)"

section \<open>The batch callback that infers\<close>

text \<open>
  The \<open>onBatch\<close> of the \<open>syncCustomers\<close> that consults the customers table (the unnamed
  source file that also holds the routes, lines 621-675) calls \<open>inferGender\<close> for a record
  that is new or not yet \<open>complete\<close>, and supplies the inference when its gender is not
  \<open>unknown\<close>; otherwise it supplies the enrichment fields of the row it read.
\<close>

definition inferFetched ::
  "(string \<Rightarrow> json option) \<Rightarrow> (json \<Rightarrow> jsnum)
     \<Rightarrow> (string option \<times> string option \<times> string option \<times> string option \<Rightarrow> completion)
     \<Rightarrow> TransformedCustomer \<Rightarrow> GenderInferenceResult"
where
  "inferFetched jsonParse strNum provider customer =
     inferGender jsonParse strNum provider (TransformedCustomer.firstName customer)
       (TransformedCustomer.lastName customer) (TransformedCustomer.email customer)
       (TransformedCustomer.country customer)"

definition shouldInfer :: "Customer option \<Rightarrow> bool" where
  "shouldInfer existing =
     (case existing of None \<Rightarrow> True | Some e \<Rightarrow> Customer.enrichmentStatus e \<noteq> Complete)"

text \<open>\<open>(genderInference?.gender || "unknown") !== "unknown"\<close>.\<close>

definition shouldPersistInference :: "GenderInferenceResult option \<Rightarrow> bool" where
  "shouldPersistInference genderInference =
     (case genderInference of
        None \<Rightarrow> False
      | Some r \<Rightarrow> (if gender r = [] then ''unknown'' else gender r) \<noteq> ''unknown'')"

definition insertDataInferring ::
  "(TransformedCustomer \<Rightarrow> GenderInferenceResult) \<Rightarrow> Customer option \<Rightarrow> TransformedCustomer
     \<Rightarrow> InsertCustomer"
where
  "insertDataInferring infer existing customer =
     (let genderInference = (if shouldInfer existing then Some (infer customer) else None)
      in (insertData existing customer)
           \<lparr> InsertCustomer.genderInferred :=
                (case genderInference of
                   Some r \<Rightarrow>
                     if shouldPersistInference genderInference then Given (Some (gender r))
                     else InsertCustomer.genderInferred (insertData existing customer)
                 | None \<Rightarrow> InsertCustomer.genderInferred (insertData existing customer)),
              InsertCustomer.genderConfidence :=
                (case genderInference of
                   Some r \<Rightarrow>
                     if shouldPersistInference genderInference then Given (Some (confidence r))
                     else InsertCustomer.genderConfidence (insertData existing customer)
                 | None \<Rightarrow> InsertCustomer.genderConfidence (insertData existing customer)),
              InsertCustomer.enrichmentStatus :=
                (if shouldPersistInference genderInference then Some Complete
                 else InsertCustomer.enrichmentStatus (insertData existing customer)) \<rparr>)"

text \<open>Its loop, with the exceptions of the read and of the upsert; it pushes no tag.\<close>

fun onBatchInferring ::
  "(TransformedCustomer \<Rightarrow> GenderInferenceResult) \<Rightarrow> (TransformedCustomer \<Rightarrow> fault) \<Rightarrow> date
     \<Rightarrow> TransformedCustomer list \<Rightarrow> Store \<times> SyncCounts \<Rightarrow> error option \<times> (Store \<times> SyncCounts)"
where
  "onBatchInferring infer faults now [] (st, n) = (None, (st, n))"
| "onBatchInferring infer faults now (customer # rest) (st, n) =
     (if faults customer = ReadFails then (Some StoreError, (st, n))
      else
        let existing = getCustomerByShopifyId st (TransformedCustomer.shopifyCustomerId customer)
        in if faults customer = WriteFails then (Some StoreError, (st, n))
           else onBatchInferring infer faults now rest
                  (snd (upsertCustomer now (insertDataInferring infer existing customer) st),
                   n\<lparr> processed := Suc (processed n),
                       created := (if existing = None then Suc (created n) else created n),
                       updated := (if existing = None then updated n else Suc (updated n)) \<rparr>))"

section \<open>The writers of the customers table\<close>

text \<open>
  The invariant of the data model: a row whose status is \<open>complete\<close> has a gender and a
  confidence.
\<close>

definition enrichmentInvariant :: "Store \<Rightarrow> bool" where
  "enrichmentInvariant st =
     list_all (\<lambda>r. Customer.enrichmentStatus r = Complete \<longrightarrow>
                     Customer.genderInferred r \<noteq> None \<and> Customer.genderConfidence r \<noteq> None)
       (customers st)"

text \<open>
  The tables the running system can reach, one written statement at a time. The writers are
  the upsert of a synced record (by either batch callback), the upserts of the two
  webhooks, the two updates of the enrichment pass, and the reset. A writer that builds its statement from a row it read
  before (the sync, the update webhook, the enrichment pass) may have read it in any
  reachable table \<open>st0\<close>, since other writers run between its read and its write.
\<close>

inductive reachable :: "Store \<Rightarrow> bool" where
  start: "reachable emptyStore"
| syncUpsert:
    "reachable st0 \<Longrightarrow> reachable st \<Longrightarrow>
     reachable (snd (upsertCustomer now
        (insertData (getCustomerByShopifyId st0 (TransformedCustomer.shopifyCustomerId c)) c) st))"
| syncInferringUpsert:
    "reachable st0 \<Longrightarrow> reachable st \<Longrightarrow>
     reachable (snd (upsertCustomer now
        (insertDataInferring (inferFetched jsonParse strNum provider)
           (getCustomerByShopifyId st0 (TransformedCustomer.shopifyCustomerId c)) c) st))"
| webhookCreate:
    "reachable st \<Longrightarrow> webhookData pf customer Omitted Omitted Pending = Some d \<Longrightarrow>
     reachable (snd (upsertCustomer now d st))"
| webhookUpdate:
    "reachable st0 \<Longrightarrow> reachable st \<Longrightarrow>
     existing = Option.bind (WebhookCustomer.id' customer) (getCustomerByShopifyId st0) \<Longrightarrow>
     webhookData pf customer
        (case existing of None \<Rightarrow> Omitted | Some e \<Rightarrow> Given (Customer.genderInferred e))
        (case existing of None \<Rightarrow> Omitted | Some e \<Rightarrow> Given (Customer.genderConfidence e))
        (case existing of None \<Rightarrow> Pending | Some e \<Rightarrow> Customer.enrichmentStatus e) = Some d \<Longrightarrow>
     reachable (snd (upsertCustomer now d st))"
| enriched:
    "reachable st0 \<Longrightarrow> reachable st \<Longrightarrow> customer \<in> set (customers st0) \<Longrightarrow>
     reachable (enrichUpdate now (inferCustomer jsonParse strNum provider customer)
                  (Customer.id' customer) st)"
| enrichFailed:
    "reachable st0 \<Longrightarrow> reachable st \<Longrightarrow> customer \<in> set (customers st0) \<Longrightarrow>
     reachable (markFailed now (Customer.id' customer) st)"
| reset:
    "reachable st \<Longrightarrow> reachable (snd (resetAllEnrichments now st))"

section \<open>shared/schema.ts and server/storage.ts: the sync log\<close>

text \<open>
  A row of \<open>sync_logs\<close>. The two text columns hold the literals the orchestrator writes;
  \<open>errorMessage\<close> holds the error whose message is stored.
\<close>

record SyncLog =
  id' :: nat
  syncType :: string
  status :: string
  customersProcessed :: "nat option"
  customersCreated :: "nat option"
  customersUpdated :: "nat option"
  errorMessage :: "error option"
  startedAt :: date
  completedAt :: "date option"

text \<open>The table: its rows in insertion order and the next value of its identity sequence.\<close>

record SyncLogs =
  logRows :: "SyncLog list"
  logSeq :: nat

definition noLogs :: SyncLogs where
  "noLogs = \<lparr> logRows = [], logSeq = 1 \<rparr>"

text \<open>\<open>createSyncLog\<close>, as \<open>syncCustomers\<close> calls it; \<open>startedAt\<close> is \<open>defaultNow()\<close>.\<close>

definition createSyncLog :: "date \<Rightarrow> string \<Rightarrow> string \<Rightarrow> SyncLogs \<Rightarrow> SyncLog \<times> SyncLogs" where
  "createSyncLog now type st logs =
     (let row = \<lparr> SyncLog.id' = logSeq logs, syncType = type, SyncLog.status = st,
                   customersProcessed = Some 0, customersCreated = Some 0,
                   customersUpdated = Some 0, errorMessage = None,
                   startedAt = now, completedAt = None \<rparr>
      in (row, \<lparr> logRows = logRows logs @ [row], logSeq = Suc (logSeq logs) \<rparr>))"

text \<open>\<open>updateSyncLog\<close>: the \<open>Partial<SyncLog>\<close> is the function that sets its properties.\<close>

definition updateSyncLog :: "nat \<Rightarrow> (SyncLog \<Rightarrow> SyncLog) \<Rightarrow> SyncLogs \<Rightarrow> SyncLogs" where
  "updateSyncLog rowId updates logs =
     logs\<lparr> logRows := map (\<lambda>l. if SyncLog.id' l = rowId then updates l else l) (logRows logs) \<rparr>"




section \<open>server/syncJob.ts: the window of an incremental sync\<close>













section \<open>server/syncJob.ts: the runs of syncCustomers\<close>

text \<open>
  Where a call of \<open>syncCustomers\<close> is suspended: at \<open>createSyncLog\<close>; in the body between
  that and the final update (the window, \<open>fetchAllCustomers\<close> with \<open>onBatch\<close>), which
  does not write the sync log; at the \<open>updateSyncLog\<close> to \<open>completed\<close>; at the
  \<open>updateSyncLog\<close> to \<open>failed\<close> in the \<open>catch\<close>. The last three know the id of their log.
\<close>

datatype phase =
    AwaitCreate bool
  | AwaitBody nat
  | AwaitCompleted nat SyncCounts
  | AwaitFailed nat error

text \<open>
  The process: the module variable \<open>isSyncing\<close>, the sync log, the suspended calls by a
  number that names the call, and what the finished calls returned or threw.
\<close>

record Process =
  isSyncing :: bool
  journal :: SyncLogs
  suspended :: "(nat \<times> phase) list"
  finished :: "(nat \<times> (error + SyncCounts)) list"

definition freshProcess :: Process where
  "freshProcess = \<lparr> isSyncing = False, journal = noLogs, suspended = [], finished = [] \<rparr>"

text \<open>
  A process that has just loaded the module, on the sync log an earlier process has left:
  the table outlives the process, \<open>isSyncing\<close> does not.
\<close>

definition startProcess :: "SyncLogs \<Rightarrow> Process" where
  "startProcess logs = \<lparr> isSyncing = False, journal = logs, suspended = [], finished = [] \<rparr>"

text \<open>
  What happens in the process, one uninterrupted stretch of code at a time: a call of
  \<open>syncCustomers\<close>, and the settling of the promise a suspended call awaits, with the
  time the database or \<open>new Date()\<close> reads and the counters or the error the body ends
  with. A rejected store call has written nothing.
\<close>

datatype event =
    Call nat bool
  | CreateResolves nat date
  | CreateRejects nat
  | BodyResolves nat SyncCounts
  | BodyRejects nat error
  | MarkCompletedResolves nat date
  | MarkCompletedRejects nat
  | MarkFailedResolves nat date
  | MarkFailedRejects nat

text \<open>The \<open>finally\<close>: the call leaves, and \<open>isSyncing\<close> is cleared.\<close>

definition leave :: "nat \<Rightarrow> error + SyncCounts \<Rightarrow> Process \<Rightarrow> Process" where
  "leave c outcome p =
     p\<lparr> isSyncing := False,
        suspended := filter (\<lambda>x. fst x \<noteq> c) (suspended p),
        finished := finished p @ [(c, outcome)] \<rparr>"

definition moveTo :: "nat \<Rightarrow> phase \<Rightarrow> Process \<Rightarrow> Process" where
  "moveTo c ph p = p\<lparr> suspended := map (\<lambda>x. if fst x = c then (c, ph) else x) (suspended p) \<rparr>"

text \<open>
  One stretch of \<open>syncCustomers\<close>. \<open>None\<close> when the event cannot happen: a call number
  in use, or a promise no call awaits.
\<close>

fun step :: "event \<Rightarrow> Process \<Rightarrow> Process option" where
  "step (Call c incremental) p =
     (if c \<in> fst ` set (suspended p) \<or> c \<in> fst ` set (finished p) then None
      else if isSyncing p then Some (p\<lparr> finished := finished p @ [(c, Inr zeroCounts)] \<rparr>)
      else Some (p\<lparr> isSyncing := True, suspended := suspended p @ [(c, AwaitCreate incremental)] \<rparr>))"
| "step (CreateResolves c now) p =
     (case map_of (suspended p) c of
        Some (AwaitCreate incremental) \<Rightarrow>
          (let made = createSyncLog now (if incremental then ''incremental'' else ''full'')
                        ''running'' (journal p)
           in Some (moveTo c (AwaitBody (SyncLog.id' (fst made))) (p\<lparr> journal := snd made \<rparr>)))
      | _ \<Rightarrow> None)"
| "step (CreateRejects c) p =
     (case map_of (suspended p) c of
        Some (AwaitCreate incremental) \<Rightarrow> Some (leave c (Inl StoreError) p)
      | _ \<Rightarrow> None)"
| "step (BodyResolves c counts) p =
     (case map_of (suspended p) c of
        Some (AwaitBody logId) \<Rightarrow> Some (moveTo c (AwaitCompleted logId counts) p)
      | _ \<Rightarrow> None)"
| "step (BodyRejects c e) p =
     (case map_of (suspended p) c of
        Some (AwaitBody logId) \<Rightarrow> Some (moveTo c (AwaitFailed logId e) p)
      | _ \<Rightarrow> None)"
| "step (MarkCompletedResolves c now) p =
     (case map_of (suspended p) c of
        Some (AwaitCompleted logId counts) \<Rightarrow>
          Some (leave c (Inr counts)
                  (p\<lparr> journal :=
                        updateSyncLog logId
                          (\<lambda>l. l\<lparr> SyncLog.status := ''completed'',
                                   customersProcessed := Some (processed counts),
                                   customersCreated := Some (created counts),
                                   customersUpdated := Some (updated counts),
                                   completedAt := Some now \<rparr>) (journal p) \<rparr>))
      | _ \<Rightarrow> None)"
| "step (MarkCompletedRejects c) p =
     (case map_of (suspended p) c of
        Some (AwaitCompleted logId counts) \<Rightarrow> Some (moveTo c (AwaitFailed logId StoreError) p)
      | _ \<Rightarrow> None)"
| "step (MarkFailedResolves c now) p =
     (case map_of (suspended p) c of
        Some (AwaitFailed logId e) \<Rightarrow>
          Some (leave c (Inl e)
                  (p\<lparr> journal :=
                        updateSyncLog logId
                          (\<lambda>l. l\<lparr> SyncLog.status := ''failed'', errorMessage := Some e,
                                   completedAt := Some now \<rparr>) (journal p) \<rparr>))
      | _ \<Rightarrow> None)"
| "step (MarkFailedRejects c) p =
     (case map_of (suspended p) c of
        Some (AwaitFailed logId e) \<Rightarrow> Some (leave c (Inl StoreError) p)
      | _ \<Rightarrow> None)"

text \<open>A sequence of events from a state of the process; \<open>None\<close> when one cannot happen.\<close>

fun run :: "event list \<Rightarrow> Process \<Rightarrow> Process option" where
  "run [] p = Some p"
| "run (e # es) p = (case step e p of None \<Rightarrow> None | Some p' \<Rightarrow> run es p')"

text \<open>The sync logs in state \<open>running\<close>.\<close>

definition runningLogs :: "Process \<Rightarrow> SyncLog list" where
  "runningLogs p = filter (\<lambda>l. SyncLog.status l = ''running'') (logRows (journal p))"

text \<open>The \<open>updateSyncLog\<close> of the \<open>catch\<close> is rejected.\<close>

fun isMarkFailedRejects :: "event \<Rightarrow> bool" where
  "isMarkFailedRejects (MarkFailedRejects c) = True"
| "isMarkFailedRejects e = False"

text \<open>No event of the sequence is a rejected \<open>updateSyncLog\<close> of the \<open>catch\<close>.\<close>

definition logsGetClosed :: "event list \<Rightarrow> bool" where
  "logsGetClosed evs = list_all (\<lambda>e. \<not> isMarkFailedRejects e) evs"

text \<open>
  At most one call is suspended, and \<open>isSyncing\<close> is set exactly while one is.
\<close>

definition singleFlight :: "Process \<Rightarrow> bool" where
  "singleFlight p = (length (suspended p) \<le> 1 \<and> (isSyncing p \<longleftrightarrow> suspended p \<noteq> []))"

text \<open>The sync log a suspended call has created.\<close>

fun logOf :: "phase \<Rightarrow> nat option" where
  "logOf (AwaitCreate incremental) = None"
| "logOf (AwaitBody logId) = Some logId"
| "logOf (AwaitCompleted logId counts) = Some logId"
| "logOf (AwaitFailed logId e) = Some logId"

text \<open>
  The ids of the sync log are distinct and below the next value of the sequence, and every
  log in state \<open>running\<close> is the log of the suspended call.
\<close>

definition runningIsOwned :: "Process \<Rightarrow> bool" where
  "runningIsOwned p =
     (distinct (map SyncLog.id' (logRows (journal p))) \<and>
      list_all (\<lambda>l. SyncLog.id' l < logSeq (journal p)) (logRows (journal p)) \<and>
      list_all (\<lambda>l. list_ex (\<lambda>x. logOf (snd x) = Some (SyncLog.id' l)) (suspended p))
        (runningLogs p))"

text \<open>
  Two triggers of which the first fails in its body and then fails to close its log.
\<close>

definition staleLogTrace :: "event list" where
  "staleLogTrace =
     [Call 1 True, CreateResolves 1 100, BodyRejects 1 NetworkError, MarkFailedRejects 1,
      Call 2 True, CreateResolves 2 200]"

text \<open>
  The sync log a process has left that was killed during a run, and the first trigger of the
  process that follows it.
\<close>

definition killedRunLogs :: SyncLogs where
  "killedRunLogs =
     \<lparr> logRows =
         [\<lparr> SyncLog.id' = 1, syncType = ''incremental'', SyncLog.status = ''running'',
            customersProcessed = Some 0, customersCreated = Some 0, customersUpdated = Some 0,
            errorMessage = None, startedAt = 50, completedAt = None \<rparr>],
       logSeq = 2 \<rparr>"

definition restartTrace :: "event list" where
  "restartTrace = [Call 1 True, CreateResolves 1 100]"

text \<open>Three triggers, the second while the first runs, the third after it has completed.\<close>

definition overlapTrace :: "event list" where
  "overlapTrace =
     [Call 1 True, CreateResolves 1 100, Call 2 True,
      BodyResolves 1 \<lparr> processed = 2, created = 1, updated = 1 \<rparr>, MarkCompletedResolves 1 150,
      Call 3 False, CreateResolves 3 200]"

section \<open>Sample data\<close>

text \<open>The enrichment columns of a row.\<close>

definition enrichment :: "Customer \<Rightarrow> string option \<times> jsnum option \<times> EnrichmentStatus" where
  "enrichment r = (Customer.genderInferred r, Customer.genderConfidence r, Customer.enrichmentStatus r)"

text \<open>An enriched customer with external id 7, and a table that holds it.\<close>

definition sampleRow :: Customer where
  "sampleRow =
     \<lparr> Customer.id' = 1, Customer.shopifyCustomerId = 7,
       Customer.email = Some ''ann@example.com'', Customer.phone = None,
       Customer.firstName = Some ''Ann'', Customer.lastName = Some ''Lee'',
       Customer.city = Some ''Pune'', Customer.country = Some ''India'',
       Customer.province = Some ''Maharashtra'', Customer.postalCode = None,
       Customer.tags = Some ''vip'',
       Customer.createdAtShopify = Some 100, Customer.updatedAtShopify = Some 200,
       Customer.lastOrderAt = None,
       Customer.totalSpent = Some (Fin 10), Customer.ordersCount = Some 1,
       Customer.genderInferred = Some ''female'', Customer.genderConfidence = Some (Fin (3 / 4)),
       Customer.enrichmentStatus = Complete,
       Customer.createdAt = 300, Customer.updatedAt = 400 \<rparr>"

definition sampleStore :: Store where
  "sampleStore = \<lparr> customers = [sampleRow], customersSeq = 2 \<rparr>"

text \<open>
  An upsert for the same external id that supplies every column, with other enrichment
  values than the stored ones.
\<close>

definition samplePayload :: InsertCustomer where
  "samplePayload =
     \<lparr> InsertCustomer.shopifyCustomerId = 7,
       InsertCustomer.email = Given (Some ''ann@new.example''), InsertCustomer.phone = Given None,
       InsertCustomer.firstName = Given (Some ''Ann''), InsertCustomer.lastName = Given (Some ''Ray''),
       InsertCustomer.city = Given (Some ''Goa''), InsertCustomer.country = Given (Some ''India''),
       InsertCustomer.province = Given (Some ''Goa''), InsertCustomer.postalCode = Given None,
       InsertCustomer.tags = Given (Some ''vip, new''),
       InsertCustomer.createdAtShopify = Given (Some 150),
       InsertCustomer.updatedAtShopify = Given (Some 900),
       InsertCustomer.lastOrderAt = Omitted,
       InsertCustomer.totalSpent = Given (Some (Fin 25)), InsertCustomer.ordersCount = Given (Some 2),
       InsertCustomer.genderInferred = Given (Some ''male''),
       InsertCustomer.genderConfidence = Given (Some (Fin (1 / 2))),
       InsertCustomer.enrichmentStatus = Some Pending \<rparr>"

text \<open>The same customer as a page of the source returns it, normalised.\<close>

definition sampleFetched :: TransformedCustomer where
  "sampleFetched =
     \<lparr> TransformedCustomer.shopifyCustomerId = 7,
       TransformedCustomer.email = Some ''ann@new.example'', TransformedCustomer.phone = None,
       TransformedCustomer.firstName = Some ''Ann'', TransformedCustomer.lastName = Some ''Ray'',
       TransformedCustomer.city = Some ''Goa'', TransformedCustomer.country = Some ''India'',
       TransformedCustomer.province = Some ''Goa'', TransformedCustomer.postalCode = None,
       TransformedCustomer.tags = Some ''vip, new'',
       TransformedCustomer.ordersCount = 2, TransformedCustomer.totalSpent = Fin 25,
       TransformedCustomer.createdAtShopify = 150, TransformedCustomer.updatedAtShopify = 900 \<rparr>"

text \<open>The same customer as the body of a webhook, and an environment that signs with a
  constant digest.\<close>

definition sampleWebhook :: WebhookCustomer where
  "sampleWebhook =
     \<lparr> WebhookCustomer.id' = Some 7,
       WebhookCustomer.email = Given (Some ''ann@new.example''), WebhookCustomer.phone = Omitted,
       WebhookCustomer.first_name = Given (Some ''Ann''),
       WebhookCustomer.last_name = Given (Some ''Ray''),
       WebhookCustomer.default_address = None,
       WebhookCustomer.tags = Given (Some ''vip, new''),
       WebhookCustomer.orders_count = Some 2, WebhookCustomer.total_spent = Some ''25.00'',
       WebhookCustomer.created_at = Some 150, WebhookCustomer.updated_at = Some 900 \<rparr>"

definition constDigest :: "string \<Rightarrow> string \<Rightarrow> string" where
  "constDigest k body = ''c2lnbmVk''"

definition constFloat :: "string \<Rightarrow> jsnum" where
  "constFloat s = Fin 25"

definition sampleEnv :: WebhookEnv where
  "sampleEnv = \<lparr> webhookSecret = Some ''s3cret'', hmacSha256 = constDigest, floatOf = constFloat \<rparr>"

definition noFaults :: "TransformedCustomer \<Rightarrow> fault" where
  "noFaults c = NoFault"

text \<open>A record of the wire shape, and sources of one, two and three pages of it.\<close>

definition wireCustomer :: ShopifyCustomer where
  "wireCustomer =
     \<lparr> ShopifyCustomer.id' = 7, ShopifyCustomer.email = Some ''ann@new.example'',
       ShopifyCustomer.phone = None, ShopifyCustomer.first_name = Some ''Ann'',
       ShopifyCustomer.last_name = Some ''Ray'', ShopifyCustomer.created_at = 150,
       ShopifyCustomer.updated_at = 900, ShopifyCustomer.tags = ''vip, new'',
       ShopifyCustomer.orders_count = 2, ShopifyCustomer.total_spent = ''25.00'',
       ShopifyCustomer.last_order_id = None,
       ShopifyCustomer.default_address =
         Some \<lparr> Address.city = Some ''Goa'', Address.country = Some ''India'',
                Address.province = Some ''Goa'', Address.zip = Some [] \<rparr> \<rparr>"

definition threePages :: "ShopifyCustomer list list" where
  "threePages = [replicate 250 wireCustomer, replicate 250 wireCustomer, replicate 40 wireCustomer]"

definition shortFirstPage :: "ShopifyCustomer list list" where
  "shortFirstPage = [[wireCustomer], [wireCustomer]]"

text \<open>
  Replies of the provider, as \<open>JSON.parse\<close> reads them: a gender outside the three, with
  confidence 0.9; gender male with confidence 1.7; gender male with an object as
  confidence. A provider that returns a given completion, a parser that reads a given
  value, and a text conversion that finds no number.
\<close>

definition robotReply :: json where
  "robotReply = JObj [(''gender'', JStr ''robot''), (''confidence'', JNum (Fin (9 / 10)))]"

definition overconfidentReply :: json where
  "overconfidentReply = JObj [(''gender'', JStr ''male''), (''confidence'', JNum (Fin (17 / 10)))]"

definition objectConfidenceReply :: json where
  "objectConfidenceReply = JObj [(''gender'', JStr ''male''), (''confidence'', JObj [])]"

definition replyWith ::
  "completion \<Rightarrow> string option \<times> string option \<times> string option \<times> string option \<Rightarrow> completion" where
  "replyWith c asked = c"

definition parseAs :: "json \<Rightarrow> string \<Rightarrow> json option" where
  "parseAs v content = Some v"

definition noNumber :: "json \<Rightarrow> jsnum" where
  "noNumber v = NaN"

definition allWritesOk :: "Customer \<Rightarrow> writes" where
  "allWritesOk c = WriteOk"

text \<open>The table after the sample webhook has created the customer in the empty table.\<close>

definition afterCreate :: Store where
  "afterCreate =
     snd (webhookCustomersCreate sampleEnv 1000 (Some ''c2lnbmVk'') ''{}'' sampleWebhook emptyStore)"



text \<open>A sync log with one completed run, started at 1000000 and completed at 1600000.\<close>

definition logsOnce :: SyncLogs where
  "logsOnce =
     \<lparr> logRows =
         [\<lparr> SyncLog.id' = 1, syncType = ''incremental'', SyncLog.status = ''completed'',
            customersProcessed = Some 3, customersCreated = Some 3, customersUpdated = Some 0,
            errorMessage = None, startedAt = 1000000, completedAt = Some 1600000 \<rparr>],
       logSeq = 2 \<rparr>"

section \<open>The store: lookups and the unique external id\<close>

lemma log2_floor:
  assumes "0 < x" and "2 powr of_int k \<le> x" and "x < 2 powr (of_int k + 1)"
  shows "\<lfloor>log 2 x\<rfloor> = k"
  using assms by (simp add: floor_log_eq_powr_iff)



lemma quantum_16777217: "quantum 16777217 = 2"
proof -
  have "\<lfloor>log 2 (16777217::real)\<rfloor> = 24"
    by (rule log2_floor) simp_all
  then show ?thesis by (simp add: quantum_def)
qed

lemma single_16777217: "single 16777217 = 16777216"
proof -
  have "\<lfloor>16777217 / 2 :: real\<rfloor> = 8388608" by linarith
  then show ?thesis by (simp add: single_def quantum_16777217 roundHalfEven_def)
qed

lemma quantum_1: "quantum 1 = 1 / 2 ^ 23"
proof -
  have "\<lfloor>log 2 (1::real)\<rfloor> = 0" by simp
  then show ?thesis by (simp add: quantum_def powr_neg_numeral)
qed

lemma single_1: "single 1 = 1"
  by (simp add: single_def quantum_1 roundHalfEven_def)

lemma col_idem: "col v (col v x) = col v x"
  by (cases v) (simp_all add: col_def)

lemma colReal_idem: "colReal v (colReal v x) = colReal v x"
  by (cases v) (simp_all add: colReal_def)

lemma conflictSet_shopifyCustomerId:
  "Customer.shopifyCustomerId (conflictSet now c r) = Customer.shopifyCustomerId r"
  by (simp add: conflictSet_def)

lemma insertValues_shopifyCustomerId:
  "Customer.shopifyCustomerId (insertValues now k c) = InsertCustomer.shopifyCustomerId c"
  by (simp add: insertValues_def)

lemma conflictSet_twice:
  "conflictSet t2 c (conflictSet t1 c r) = (conflictSet t1 c r)\<lparr> Customer.updatedAt := t2 \<rparr>"
  by (simp add: conflictSet_def col_idem colReal_idem)

lemma conflictSet_insertValues:
  "conflictSet t2 c (insertValues t1 k c) = (insertValues t1 k c)\<lparr> Customer.updatedAt := t2 \<rparr>"
  by (simp add: conflictSet_def insertValues_def col_idem colReal_idem)

lemma find_map_same_key:
  assumes "\<And>r. key (g r) = key r"
  shows "find (\<lambda>r. key r = k) (map (\<lambda>r. if key r = k then g r else r) xs)
         = map_option g (find (\<lambda>r. key r = k) xs)"
  using assms by (induction xs) simp_all

lemma find_map_other_key:
  assumes "\<And>r. key (g r) = key r" and "j \<noteq> k"
  shows "find (\<lambda>r. key r = j) (map (\<lambda>r. if key r = k then g r else r) xs)
         = find (\<lambda>r. key r = j) xs"
  using assms by (induction xs) auto

lemma find_append:
  "find P (xs @ ys) = (case find P xs of None \<Rightarrow> find P ys | Some x \<Rightarrow> Some x)"
  by (induction xs) simp_all

lemma filter_key_absent: "k \<notin> key ` set xs \<Longrightarrow> filter (\<lambda>r. key r = k) xs = []"
  by (induction xs) auto

lemma find_None_filter: "find P xs = None \<Longrightarrow> filter P xs = []"
  by (induction xs) (auto split: if_splits)

lemma map_key_upd:
  assumes "\<And>r. key (g r) = key r"
  shows "map key (map (\<lambda>r. if key r = k then g r else r) xs) = map key xs"
  using assms by (induction xs) simp_all

lemma distinct_filter_key:
  "distinct (map key xs) \<Longrightarrow> find (\<lambda>r. key r = k) xs = Some y
     \<Longrightarrow> length (filter (\<lambda>r. key r = k) xs) = 1"
proof (induction xs)
  case Nil
  then show ?case by simp
next
  case (Cons x xs)
  show ?case
  proof (cases "key x = k")
    case True
    with Cons.prems have "key x \<notin> key ` set xs"
      by simp
    with True have "filter (\<lambda>r. key r = k) xs = []"
      by (simp add: filter_key_absent)
    with True show ?thesis by simp
  next
    case False
    with Cons show ?thesis by simp
  qed
qed

lemma upsertCustomer_stored:
  "getCustomerByShopifyId (snd (upsertCustomer now c st)) (InsertCustomer.shopifyCustomerId c)
     = Some (fst (upsertCustomer now c st))"
proof (cases "getCustomerByShopifyId st (InsertCustomer.shopifyCustomerId c)")
  case None
  then have "find (\<lambda>r. Customer.shopifyCustomerId r = InsertCustomer.shopifyCustomerId c)
               (customers st) = None"
    by (simp add: getCustomerByShopifyId_def)
  then show ?thesis
    using None
    by (simp add: upsertCustomer_def getCustomerByShopifyId_def find_append
        insertValues_shopifyCustomerId)
next
  case (Some old)
  then show ?thesis
    by (simp add: upsertCustomer_def getCustomerByShopifyId_def
        find_map_same_key [where key = Customer.shopifyCustomerId, OF conflictSet_shopifyCustomerId])
qed

lemma upsertCustomer_other:
  "j \<noteq> InsertCustomer.shopifyCustomerId c \<Longrightarrow>
   getCustomerByShopifyId (snd (upsertCustomer now c st)) j = getCustomerByShopifyId st j"
  by (cases "getCustomerByShopifyId st (InsertCustomer.shopifyCustomerId c)")
     (simp_all add: upsertCustomer_def getCustomerByShopifyId_def find_append
        insertValues_shopifyCustomerId
        find_map_other_key [where key = Customer.shopifyCustomerId, OF conflictSet_shopifyCustomerId]
      split: option.splits)

lemma upsertCustomer_unique:
  "uniqueExternalIds st \<Longrightarrow> uniqueExternalIds (snd (upsertCustomer now c st))"
proof (cases "getCustomerByShopifyId st (InsertCustomer.shopifyCustomerId c)")
  case None
  assume u: "uniqueExternalIds st"
  from None have "InsertCustomer.shopifyCustomerId c \<notin> Customer.shopifyCustomerId ` set (customers st)"
    by (auto simp: getCustomerByShopifyId_def find_None_iff)
  with u None show ?thesis
    by (simp add: upsertCustomer_def uniqueExternalIds_def insertValues_shopifyCustomerId)
next
  case (Some old)
  assume u: "uniqueExternalIds st"
  with Some show ?thesis
    by (simp add: upsertCustomer_def uniqueExternalIds_def del: map_map
        add: map_key_upd [where key = Customer.shopifyCustomerId, OF conflictSet_shopifyCustomerId])
qed

section \<open>The upsert on a stored external id\<close>

lemma conflictSet_enrichment: "enrichment (conflictSet now c r) = enrichment r"
  by (simp add: enrichment_def conflictSet_def)

lemma upsertCustomer_frame:
  assumes "getCustomerByShopifyId st i = Some old"
  shows "map_option enrichment (getCustomerByShopifyId (snd (upsertCustomer now c st)) i)
         = Some (enrichment old)"
proof (cases "i = InsertCustomer.shopifyCustomerId c")
  case True
  with assms have "fst (upsertCustomer now c st) = conflictSet now c old"
    by (simp add: upsertCustomer_def)
  with True show ?thesis
    by (simp add: upsertCustomer_stored conflictSet_enrichment)
next
  case False
  with assms show ?thesis by (simp add: upsertCustomer_other)
qed


lemma sample_lookup: "getCustomerByShopifyId sampleStore 7 = Some sampleRow"
  by (simp add: getCustomerByShopifyId_def sampleStore_def sampleRow_def)



section \<open>The upsert repeated\<close>

lemma upsertCustomer_customers_conflict:
  assumes "getCustomerByShopifyId st (InsertCustomer.shopifyCustomerId c) = Some old"
  shows "customers (snd (upsertCustomer now c st))
         = map (\<lambda>r. if Customer.shopifyCustomerId r = InsertCustomer.shopifyCustomerId c
                     then conflictSet now c r else r) (customers st)"
    and "fst (upsertCustomer now c st) = conflictSet now c old"
  using assms by (simp_all add: upsertCustomer_def)

lemma upsertCustomer_fst_cases:
  "fst (upsertCustomer t c st) = insertValues t (customersSeq st) c
   \<or> (\<exists>old. fst (upsertCustomer t c st) = conflictSet t c old)"
  by (cases "getCustomerByShopifyId st (InsertCustomer.shopifyCustomerId c)")
     (auto simp: upsertCustomer_def)

lemma conflictSet_after_upsert:
  "conflictSet t2 c (fst (upsertCustomer t1 c st))
   = (fst (upsertCustomer t1 c st))\<lparr> Customer.updatedAt := t2 \<rparr>"
  using upsertCustomer_fst_cases [of t1 c st]
  by (auto simp: conflictSet_twice conflictSet_insertValues)

lemma map_conflictSet_rows:
  assumes "\<And>r. r \<in> set xs \<Longrightarrow> Customer.shopifyCustomerId r = k \<Longrightarrow> conflictSet t c r = r\<lparr> Customer.updatedAt := t \<rparr>"
  shows "map (\<lambda>r. if Customer.shopifyCustomerId r = k then conflictSet t c r else r) xs
         = map (\<lambda>r. if Customer.shopifyCustomerId r = k then r\<lparr> Customer.updatedAt := t \<rparr> else r) xs"
  using assms by (induction xs) auto

lemma find_Some_unique:
  "distinct (map key xs) \<Longrightarrow> find (\<lambda>r. key r = k) xs = Some y \<Longrightarrow> r \<in> set xs \<Longrightarrow> key r = k
     \<Longrightarrow> r = y"
  by (induction xs) (auto split: if_splits simp: image_iff)

text \<open>
  Claim C9, as the code has it. Under the unique constraint, a second \<open>upsertCustomer\<close>
  with the same input changes nothing but \<open>updatedAt\<close> of the row of that external id,
  which becomes the time of the second call; the table still has exactly one row for the
  external id, and the constraint still holds.
\<close>

theorem upsertCustomer_twice:
  assumes "uniqueExternalIds st"
  shows "let once = upsertCustomer t1 c st; twice = upsertCustomer t2 c (snd once) in
     fst twice = (fst once)\<lparr> Customer.updatedAt := t2 \<rparr> \<and>
     customers (snd twice)
       = map (\<lambda>r. if Customer.shopifyCustomerId r = InsertCustomer.shopifyCustomerId c
                   then r\<lparr> Customer.updatedAt := t2 \<rparr> else r) (customers (snd once)) \<and>
     length (filter (\<lambda>r. Customer.shopifyCustomerId r = InsertCustomer.shopifyCustomerId c)
               (customers (snd twice))) = 1 \<and>
     getCustomerByShopifyId (snd twice) (InsertCustomer.shopifyCustomerId c) = Some (fst twice) \<and>
     uniqueExternalIds (snd twice)"
proof -
  define once where "once = upsertCustomer t1 c st"
  define twice where "twice = upsertCustomer t2 c (snd once)"
  have stored: "getCustomerByShopifyId (snd once) (InsertCustomer.shopifyCustomerId c) = Some (fst once)"
    unfolding once_def by (rule upsertCustomer_stored)
  have u1: "uniqueExternalIds (snd once)"
    unfolding once_def using assms by (rule upsertCustomer_unique)
  have u2: "uniqueExternalIds (snd twice)"
    unfolding twice_def using u1 by (rule upsertCustomer_unique)
  have row: "fst twice = (fst once)\<lparr> Customer.updatedAt := t2 \<rparr>"
    unfolding twice_def upsertCustomer_customers_conflict(2) [OF stored]
    unfolding once_def by (rule conflictSet_after_upsert)
  have only: "r = fst once"
    if "r \<in> set (customers (snd once))"
      and "Customer.shopifyCustomerId r = InsertCustomer.shopifyCustomerId c" for r
    using u1 stored that
    unfolding uniqueExternalIds_def getCustomerByShopifyId_def
    by (rule find_Some_unique)
  have tab: "customers (snd twice)
       = map (\<lambda>r. if Customer.shopifyCustomerId r = InsertCustomer.shopifyCustomerId c
                   then r\<lparr> Customer.updatedAt := t2 \<rparr> else r) (customers (snd once))"
    unfolding twice_def upsertCustomer_customers_conflict(1) [OF stored]
  proof (rule map_conflictSet_rows)
    fix r assume "r \<in> set (customers (snd once))"
      and "Customer.shopifyCustomerId r = InsertCustomer.shopifyCustomerId c"
    then have "r = fst once" by (rule only)
    then show "conflictSet t2 c r = r\<lparr> Customer.updatedAt := t2 \<rparr>"
      unfolding once_def by (simp add: conflictSet_after_upsert)
  qed
  have stored2: "getCustomerByShopifyId (snd twice) (InsertCustomer.shopifyCustomerId c) = Some (fst twice)"
    unfolding twice_def by (rule upsertCustomer_stored)
  have one: "length (filter (\<lambda>r. Customer.shopifyCustomerId r = InsertCustomer.shopifyCustomerId c)
               (customers (snd twice))) = 1"
    using u2 stored2 unfolding uniqueExternalIds_def getCustomerByShopifyId_def
    by (rule distinct_filter_key)
  from row tab one stored2 u2 show ?thesis
    unfolding once_def twice_def Let_def by simp
qed

lemma emptyStore_unique: "uniqueExternalIds emptyStore"
  by (simp add: uniqueExternalIds_def emptyStore_def)

theorem upsertCustomer_twice_witness:
  "uniqueExternalIds emptyStore \<and>
   fst (upsertCustomer 2000 samplePayload (snd (upsertCustomer 1000 samplePayload emptyStore)))
     = (fst (upsertCustomer 1000 samplePayload emptyStore))\<lparr> Customer.updatedAt := 2000 \<rparr> \<and>
   length (filter (\<lambda>r. Customer.shopifyCustomerId r = 7)
     (customers (snd (upsertCustomer 2000 samplePayload
        (snd (upsertCustomer 1000 samplePayload emptyStore)))))) = 1"
proof -
  have sid: "InsertCustomer.shopifyCustomerId samplePayload = 7"
    by (simp add: samplePayload_def)
  note twice = upsertCustomer_twice [OF emptyStore_unique, of 1000 samplePayload 2000,
      unfolded Let_def sid]
  from twice emptyStore_unique show ?thesis by blast
qed

text \<open>
  The claim as it is written fails: after calls at times 1000 and 2000 the stored row is not
  the row a single call at time 1000 leaves.
\<close>

theorem upsertCustomer_twice_counterexample:
  "getCustomerByShopifyId (snd (upsertCustomer 1000 samplePayload emptyStore)) 7
     = Some (fst (upsertCustomer 1000 samplePayload emptyStore)) \<and>
   getCustomerByShopifyId
     (snd (upsertCustomer 2000 samplePayload (snd (upsertCustomer 1000 samplePayload emptyStore)))) 7
     = Some (fst (upsertCustomer 2000 samplePayload (snd (upsertCustomer 1000 samplePayload emptyStore)))) \<and>
   Customer.updatedAt (fst (upsertCustomer 1000 samplePayload emptyStore)) = 1000 \<and>
   Customer.updatedAt
     (fst (upsertCustomer 2000 samplePayload (snd (upsertCustomer 1000 samplePayload emptyStore))))
     = 2000 \<and>
   fst (upsertCustomer 2000 samplePayload (snd (upsertCustomer 1000 samplePayload emptyStore)))
     \<noteq> fst (upsertCustomer 1000 samplePayload emptyStore)"
proof -
  have sid: "InsertCustomer.shopifyCustomerId samplePayload = 7"
    by (simp add: samplePayload_def)
  have a: "getCustomerByShopifyId (snd (upsertCustomer 1000 samplePayload emptyStore)) 7
     = Some (fst (upsertCustomer 1000 samplePayload emptyStore))"
    using upsertCustomer_stored [of 1000 samplePayload emptyStore] by (simp add: sid)
  have b: "getCustomerByShopifyId
     (snd (upsertCustomer 2000 samplePayload (snd (upsertCustomer 1000 samplePayload emptyStore)))) 7
     = Some (fst (upsertCustomer 2000 samplePayload (snd (upsertCustomer 1000 samplePayload emptyStore))))"
    using upsertCustomer_stored [of 2000 samplePayload "snd (upsertCustomer 1000 samplePayload emptyStore)"]
    by (simp add: sid)
  have c: "Customer.updatedAt (fst (upsertCustomer 1000 samplePayload emptyStore)) = 1000"
    by (simp add: upsertCustomer_def getCustomerByShopifyId_def emptyStore_def insertValues_def)
  have d: "Customer.updatedAt
     (fst (upsertCustomer 2000 samplePayload (snd (upsertCustomer 1000 samplePayload emptyStore))))
     = 2000"
    using a by (simp add: upsertCustomer_def [of 2000] sid conflictSet_def)
  from c d have "fst (upsertCustomer 2000 samplePayload (snd (upsertCustomer 1000 samplePayload emptyStore)))
     \<noteq> fst (upsertCustomer 1000 samplePayload emptyStore)"
    by auto
  with a b c d show ?thesis by simp
qed

section \<open>The create webhook\<close>

lemma webhookData_id:
  "webhookData pf customer g conf s = Some d \<Longrightarrow>
   WebhookCustomer.id' customer = Some (InsertCustomer.shopifyCustomerId d)"
  by (auto simp: webhookData_def split: option.splits)

lemma checkSignature_signed:
  assumes "sig \<noteq> []"
    and "webhookSecret env = Some k" and "hmacSha256 env k rawBody = sig"
  shows "checkSignature env (Some sig) rawBody = (if k = [] then Some (Responded 401) else None)"
  using assms by (simp add: checkSignature_def verifyWebhookSignature_def)

lemma checkSignature_valid:
  assumes "sig \<noteq> []"
    and "webhookSecret env = Some k" and "hmacSha256 env k rawBody = sig" and "k \<noteq> []"
  shows "checkSignature env (Some sig) rawBody = None"
  using assms by (simp add: checkSignature_def verifyWebhookSignature_def)

text \<open>
  Claim C10. A validly signed \<open>customers/create\<close> webhook for an external id that is
  already stored leaves the stored \<open>genderInferred\<close>, \<open>genderConfidence\<close> and
  \<open>enrichmentStatus\<close> of that customer as they were, whether the request ends with 200
  or, the statement being rejected, with 500: the receiver passes \<open>pending\<close> and no gender
  fields, and the conflict path of the upsert writes none of the three columns.
\<close>

theorem webhookCustomersCreate_keeps_enrichment:
  assumes "sig \<noteq> []"
    and "webhookSecret env = Some k" and "hmacSha256 env k rawBody = sig"
    and "WebhookCustomer.id' customer = Some i"
    and "getCustomerByShopifyId st i = Some old"
  shows "let st' = snd (webhookCustomersCreate env now (Some sig) rawBody customer st) in
     map_option Customer.genderInferred (getCustomerByShopifyId st' i)
       = Some (Customer.genderInferred old) \<and>
     map_option Customer.genderConfidence (getCustomerByShopifyId st' i)
       = Some (Customer.genderConfidence old) \<and>
     map_option Customer.enrichmentStatus (getCustomerByShopifyId st' i)
       = Some (Customer.enrichmentStatus old)"
proof -
  note sig = checkSignature_signed [OF assms(1-3)]
  define st' where "st' = snd (webhookCustomersCreate env now (Some sig) rawBody customer st)"
  have "map_option enrichment (getCustomerByShopifyId st' i) = Some (enrichment old)"
  proof (cases "k = [] \<or> webhookData (floatOf env) customer Omitted Omitted Pending = None")
    case True
    with sig have "st' = st" by (auto simp: st'_def webhookCustomersCreate_def)
    with assms(5) show ?thesis by simp
  next
    case False
    then obtain d where "webhookData (floatOf env) customer Omitted Omitted Pending = Some d"
      by auto
    with sig False have "st' = snd (upsertCustomer now d st)"
      by (simp add: st'_def webhookCustomersCreate_def)
    with assms(5) show ?thesis by (simp add: upsertCustomer_frame)
  qed
  then show ?thesis
    unfolding st'_def Let_def
    by (cases "getCustomerByShopifyId
                 (snd (webhookCustomersCreate env now (Some sig) rawBody customer st)) i")
       (simp_all add: enrichment_def)
qed

theorem webhookCustomersCreate_keeps_enrichment_witness:
  "''c2lnbmVk'' \<noteq> [] \<and>
   webhookSecret sampleEnv = Some ''s3cret'' \<and>
   hmacSha256 sampleEnv ''s3cret'' ''{}'' = ''c2lnbmVk'' \<and>
   WebhookCustomer.id' sampleWebhook = Some 7 \<and>
   getCustomerByShopifyId sampleStore 7 = Some sampleRow \<and>
   fst (webhookCustomersCreate sampleEnv 2000 (Some ''c2lnbmVk'') ''{}'' sampleWebhook sampleStore)
     = Responded 200 \<and>
   map_option Customer.enrichmentStatus
     (getCustomerByShopifyId
        (snd (webhookCustomersCreate sampleEnv 2000 (Some ''c2lnbmVk'') ''{}'' sampleWebhook sampleStore)) 7)
     = Some Complete \<and>
   map_option Customer.genderInferred
     (getCustomerByShopifyId
        (snd (webhookCustomersCreate sampleEnv 2000 (Some ''c2lnbmVk'') ''{}'' sampleWebhook sampleStore)) 7)
     = Some (Some ''female'')"
proof -
  have h2: "''c2lnbmVk'' \<noteq> []" by simp
  have h3: "webhookSecret sampleEnv = Some ''s3cret''" by (simp add: sampleEnv_def)
  have h4: "hmacSha256 sampleEnv ''s3cret'' ''{}'' = ''c2lnbmVk''"
    by (simp add: sampleEnv_def constDigest_def)
  have h5: "WebhookCustomer.id' sampleWebhook = Some 7" by (simp add: sampleWebhook_def)
  have r: "fst (webhookCustomersCreate sampleEnv 2000 (Some ''c2lnbmVk'') ''{}'' sampleWebhook sampleStore)
     = Responded 200"
    using checkSignature_signed [OF h2 h3 h4]
    by (simp add: webhookCustomersCreate_def webhookData_def sampleWebhook_def split: option.splits)
  have e: "Customer.enrichmentStatus sampleRow = Complete"
      "Customer.genderInferred sampleRow = Some ''female''"
    by (simp_all add: sampleRow_def)
  note keep = webhookCustomersCreate_keeps_enrichment [OF h2 h3 h4 h5 sample_lookup,
      of 2000, unfolded Let_def e]
  from keep h2 h3 h4 h5 sample_lookup r show ?thesis by blast
qed

section \<open>Bulk iteration over a paginated source\<close>

lemma pagedSource_request:
  "pagedSource pages n (pageRequest since (cursorOf k)) = pageAnswer pages k"
  by (cases k) (simp_all add: pageRequest_def cursorOf_def)

lemma visited_drop_last:
  assumes "k < length pages" and "\<not> (Suc k < length pages \<and> length (pages ! k) = 250)"
  shows "visited (drop k pages) = [pages ! k]"
proof (cases "Suc k < length pages")
  case True
  with assms have "drop k pages = pages ! k # pages ! Suc k # drop (Suc (Suc k)) pages"
    by (simp add: Cons_nth_drop_Suc)
  with assms True show ?thesis by simp
next
  case False
  with assms(1) have "drop k pages = [pages ! k]"
    by (metis Cons_nth_drop_Suc drop_all not_less)
  then show ?thesis by simp
qed

lemma visited_drop_more:
  assumes "Suc k < length pages" and "length (pages ! k) = 250"
  shows "visited (drop k pages) = pages ! k # visited (drop (Suc k) pages)"
proof -
  from assms have "drop k pages = pages ! k # pages ! Suc k # drop (Suc (Suc k)) pages"
    by (simp add: Cons_nth_drop_Suc)
  moreover from assms have "drop (Suc k) pages = pages ! Suc k # drop (Suc (Suc k)) pages"
    by (simp add: Cons_nth_drop_Suc)
  ultimately show ?thesis using assms by simp
qed

lemma fetchLoop_paged:
  assumes "k < length pages"
  shows "map_option (\<lambda>(r, cl', s). (r, s))
           (fetchLoop pf (pagedSource pages) since (Some recordBatch) (cursorOf k) t cl seen)
         = Some (Inr (t + sum_list (map length (visited (drop k pages)))),
                 seen @ filter (\<lambda>b. b \<noteq> []) (map (map (transformCustomer pf)) (visited (drop k pages))))"
  using assms
proof (induction "length pages - k" arbitrary: k t cl seen)
  case 0
  then show ?case by simp
next
  case (Suc n)
  show ?case
  proof (cases "Suc k < length pages \<and> length (pages ! k) = 250")
    case True
    then have more: "Suc k < length pages" and full: "length (pages ! k) = 250" by simp_all
    from Suc.hyps(2) more have n: "n = length pages - Suc k" by simp
    have next_cursor: "Some (replicate (Suc k) CHR ''p'') = cursorOf (Suc k)"
      by (simp add: cursorOf_def)
    have tr: "truthy (cursorOf (Suc k))"
      by (simp add: cursorOf_def)
    have ne0: "pages ! k \<noteq> []"
      using full by auto
    have step: "fetchLoop pf (pagedSource pages) since (Some recordBatch) (cursorOf k) t cl seen
        = fetchLoop pf (pagedSource pages) since (Some recordBatch) (cursorOf (Suc k))
            (t + 250)
            (delay 500 (cl\<lparr> sent := Suc (sent cl), lastRateLimitInfo := (0, 40) \<rparr>))
            (seen @ [map (transformCustomer pf) (pages ! k)])"
      using more full Suc.prems
      by (subst fetchLoop.simps)
         (simp add: pagedSource_request pageAnswer_def ok_def Let_def callOnBatch_def
            recordBatch_def parseRateLimitHeader_def nearLimit_def next_cursor tr ne0
            del: replicate_Suc replicate.simps)
    have ne: "map (transformCustomer pf) (pages ! k) \<noteq> []"
      using full by auto
    show ?thesis
      unfolding step Suc.hyps(1) [OF n more] visited_drop_more [OF more full]
      using full ne by simp
  next
    case False
    have last: "visited (drop k pages) = [pages ! k]"
      using Suc.prems False by (rule visited_drop_last)
    show ?thesis
    proof (cases "Suc k < length pages")
      case True
      with False have "length (pages ! k) \<noteq> 250" by simp
      with True Suc.prems show ?thesis
        unfolding last
        by (subst fetchLoop.simps)
           (simp add: pagedSource_request pageAnswer_def ok_def Let_def callOnBatch_def
              recordBatch_def parseRateLimitHeader_def nearLimit_def)
    next
      case False
      with Suc.prems show ?thesis
        unfolding last
        by (subst fetchLoop.simps)
           (simp add: pagedSource_request pageAnswer_def ok_def Let_def callOnBatch_def
              recordBatch_def parseRateLimitHeader_def nearLimit_def)
    qed
  qed
qed

lemma visited_fullPages: "fullPages pages \<Longrightarrow> visited pages = pages"
  by (induction pages rule: visited.induct) simp_all

lemma fetchAllCustomers_paged_result:
  "\<exists>cl'. fetchAllCustomers pf (pagedSource pages) since (Some recordBatch) cl []
     = Some (Inr (sum_list (map length (visited pages))), cl',
             filter (\<lambda>b. b \<noteq> []) (map (map (transformCustomer pf)) (visited pages)))"
proof (cases "pages = []")
  case True
  then show ?thesis
    unfolding fetchAllCustomers_def
    by (subst fetchLoop.simps)
       (simp add: pageRequest_def pageAnswer_def ok_def Let_def callOnBatch_def)
next
  case False
  then have "0 < length pages" by simp
  from fetchLoop_paged [OF this, of pf since 0 cl "[]"]
  show ?thesis
    by (auto simp: fetchAllCustomers_def cursorOf_def)
qed

lemma recorded_total:
  "sum_list (map length (filter (\<lambda>b. b \<noteq> []) (map (map f) ps))) = sum_list (map length ps)"
  by (induction ps) simp_all

lemma threePages_visited: "visited threePages = threePages"
  by (simp add: threePages_def)

lemma threePages_total: "sum_list (map length threePages) = 540"
  by (simp add: threePages_def)

lemma threePages_batches:
  "map length (filter (\<lambda>b. b \<noteq> []) (map (map f) threePages)) = [250, 250, 40]"
  by (simp add: threePages_def)

text \<open>
  Claim C4, as the code has it. On every finite paginated source \<open>fetchAllCustomers\<close>
  returns. It passes to \<open>onBatch\<close>, in order, the non-empty pages among those up to and
  including the first page that is the last or does not hold exactly 250 records, and no
  others; the number it returns is the number of records of those pages, which is also
  the number of records passed to \<open>onBatch\<close>. When every page but the last holds exactly
  250 records these are all the pages of the source, so the number is the source's total.
  On pages of 250, 250 and 40 records there are three calls, of 250, 250 and 40 records,
  and the result is 540.
\<close>

theorem fetchAllCustomers_paged:
  "map_option fst (fetchAllCustomers pf (pagedSource pages) since (Some recordBatch) cl [])
     = Some (Inr (sum_list (map length (visited pages)))) \<and>
   map_option (snd \<circ> snd) (fetchAllCustomers pf (pagedSource pages) since (Some recordBatch) cl [])
     = Some (filter (\<lambda>b. b \<noteq> []) (map (map (transformCustomer pf)) (visited pages))) \<and>
   sum_list (map length
      (filter (\<lambda>b. b \<noteq> []) (map (map (transformCustomer pf)) (visited pages))))
     = sum_list (map length (visited pages)) \<and>
   (fullPages pages \<longrightarrow> visited pages = pages) \<and>
   map_option fst (fetchAllCustomers pf (pagedSource threePages) since (Some recordBatch) cl [])
     = Some (Inr 540) \<and>
   map_option (map length \<circ> snd \<circ> snd)
     (fetchAllCustomers pf (pagedSource threePages) since (Some recordBatch) cl [])
     = Some [250, 250, 40]"
proof -
  obtain cl1 where r1: "fetchAllCustomers pf (pagedSource pages) since (Some recordBatch) cl []
     = Some (Inr (sum_list (map length (visited pages))), cl1,
             filter (\<lambda>b. b \<noteq> []) (map (map (transformCustomer pf)) (visited pages)))"
    using fetchAllCustomers_paged_result by blast
  obtain cl2 where r2: "fetchAllCustomers pf (pagedSource threePages) since (Some recordBatch) cl []
     = Some (Inr (sum_list (map length (visited threePages))), cl2,
             filter (\<lambda>b. b \<noteq> []) (map (map (transformCustomer pf)) (visited threePages)))"
    using fetchAllCustomers_paged_result by blast
  show ?thesis
    unfolding r1 r2 threePages_visited
    by (simp add: recorded_total visited_fullPages threePages_total threePages_batches
        del: map_map)
qed

theorem fetchAllCustomers_paged_witness:
  "fullPages threePages \<and> visited threePages = threePages \<and>
   map_option fst (fetchAllCustomers constFloat (pagedSource threePages) None (Some recordBatch) newClient [])
     = Some (Inr 540)"
proof -
  have f: "fullPages threePages" by (simp add: threePages_def)
  note t = fetchAllCustomers_paged [of constFloat threePages None newClient]
  from t f show ?thesis by blast
qed

text \<open>
  The claim as it is written fails on a source whose first page is short but has a cursor:
  the source yields two records, the loop stops after the first page and returns one.
\<close>

theorem fetchAllCustomers_total_counterexample:
  "sum_list (map length shortFirstPage) = 2 \<and>
   map_option fst
     (fetchAllCustomers constFloat (pagedSource shortFirstPage) None (Some recordBatch) newClient [])
     = Some (Inr 1)"
proof -
  obtain cl' where
    "fetchAllCustomers constFloat (pagedSource shortFirstPage) None (Some recordBatch) newClient []
     = Some (Inr (sum_list (map length (visited shortFirstPage))), cl',
             filter (\<lambda>b. b \<noteq> []) (map (map (transformCustomer constFloat)) (visited shortFirstPage)))"
    using fetchAllCustomers_paged_result by blast
  then show ?thesis by (simp add: shortFirstPage_def)
qed

section \<open>Rate-limit rejections, and what a callback keeps\<close>

lemma shopifyFetch_never_429:
  assumes "shopifyFetch configured server endpoint cl = Some y"
  shows "fst y \<noteq> Inl (ShopifyApiError 429)"
  using assms
proof (induction rule: shopifyFetch.raw_induct [rotated 1, consumes 1])
  case (1 rec configured server endpoint cl y)
  show ?case
  proof (cases "configured")
    case False
    with 1(2) show ?thesis by auto
  next
    case True
    define cl1 where "cl1 = (if nearLimit cl then delay 2000 cl else cl)"
    show ?thesis
    proof (cases "server (sent cl1) endpoint")
      case Unreachable
      with 1(2) True show ?thesis by (auto simp: cl1_def Let_def)
    next
      case (Answer response)
      show ?thesis
      proof (cases "Response.status response = 429")
        case busy: True
        with 1(2) True Answer have "\<exists>c. rec configured server endpoint c = Some y"
          by (auto simp: cl1_def Let_def)
        then show ?thesis using 1(1) by blast
      next
        case False
        with 1(2) True Answer show ?thesis
          by (auto simp: cl1_def Let_def split: if_splits)
      qed
    qed
  qed
qed

lemma callOnBatch_preserves:
  assumes "\<And>b s. P s \<Longrightarrow> P (snd (f b s))" and "P s"
  shows "P (snd (callOnBatch (Some f) b s))"
  using assms by (simp add: callOnBatch_def)

lemma fetchLoop_preserves:
  assumes step: "\<And>b s. P s \<Longrightarrow> P (snd (f b s))"
    and run: "fetchLoop pf server since callback pageInfo t cl s = Some y"
    and cb: "callback = Some f"
    and init: "P s"
  shows "P (snd (snd y))"
  using run cb init
proof (induction rule: fetchLoop.raw_induct [rotated 1, consumes 1])
  case (1 rec pf server since callback pageInfo t cl s y)
  show ?case
  proof (cases "server (sent cl) (pageRequest since pageInfo)")
    case Unreachable
    with 1(2,4) show ?thesis by auto
  next
    case (Answer response)
    show ?thesis
    proof (cases "ok response")
      case False
      with 1(2,4) Answer show ?thesis by auto
    next
      case True
      define called where
        "called = callOnBatch callback (map (transformCustomer pf) (jsonCustomers response)) s"
      have P': "P (snd called)"
        unfolding called_def 1(3) using step 1(4) by (rule callOnBatch_preserves)
      show ?thesis
      proof (cases "fst called")
        case (Some e)
        with 1(2) Answer True have "snd (snd y) = snd called"
          by (auto simp: Let_def called_def)
        with P' show ?thesis by simp
      next
        case None
        show ?thesis
        proof (cases "truthy (nextPageInfo response) \<and> length (jsonCustomers response) = 250")
          case more: True
          with 1(2) Answer True None
          have "\<exists>p n c. rec pf server since callback p n c (snd called) = Some y"
            by (auto simp: Let_def called_def)
          then show ?thesis using 1(1) 1(3) P' by blast
        next
          case False
          with 1(2) Answer True None have "snd (snd y) = snd called"
            by (auto simp: Let_def called_def)
          with P' show ?thesis by simp
        qed
      qed
    qed
  qed
qed

lemma shopifyFetch_busyOnce:
  "shopifyFetch True busyOnce endpoint newClient
   = Some (Inr [], \<lparr> lastRateLimitInfo = (0, 40), sent = 2, waits = [1000] \<rparr>)"
  apply (subst shopifyFetch.simps)
  apply (simp add: busyOnce_def newClient_def nearLimit_def emptyPage_def Let_def
      parseRateLimitHeader_def delay_def)
  apply (subst shopifyFetch.simps)
  apply (simp add: busyOnce_def nearLimit_def emptyPage_def Let_def
      parseRateLimitHeader_def delay_def ok_def)
  done

text \<open>
  Claim C7 at a failing input. The platform answers the first request with 429 and
  \<open>Retry-After: 1\<close>, and would answer the next with an empty page. \<open>fetchAllCustomers\<close>
  throws the 429 to its caller after that one request, without a wait and before any
  batch.
\<close>

theorem fetchAllCustomers_throws_429:
  "fetchAllCustomers pf busyOnce since (Some recordBatch) newClient []
   = Some (Inl (ShopifyApiError 429), \<lparr> lastRateLimitInfo = (0, 40), sent = 1, waits = [] \<rparr>, [])"
  unfolding fetchAllCustomers_def
  by (subst fetchLoop.simps)
     (simp add: busyOnce_def newClient_def emptyPage_def ok_def)

section \<open>Re-syncing an enriched customer\<close>

lemma onBatch_keeps:
  assumes "map_option enrichment (getCustomerByShopifyId st i) = Some e"
  shows "map_option enrichment
           (getCustomerByShopifyId (fst (snd (onBatch faults now batch (st, n)))) i) = Some e"
  using assms
proof (induction batch arbitrary: st n)
  case Nil
  then show ?case by simp
next
  case (Cons customer rest)
  from Cons.prems obtain old where old: "getCustomerByShopifyId st i = Some old"
    and e: "enrichment old = e"
    by auto
  have "map_option enrichment
          (getCustomerByShopifyId (snd (upsertCustomer now c st)) i) = Some e" for c
    using upsertCustomer_frame [OF old] e by simp
  with Cons show ?case by (simp add: Let_def)
qed

lemma onBatch_keeps_state:
  assumes "map_option enrichment (getCustomerByShopifyId (fst s) i) = Some e"
  shows "map_option enrichment
           (getCustomerByShopifyId (fst (snd (onBatch faults now batch s))) i) = Some e"
  using assms onBatch_keeps [of "fst s" i e faults now batch "snd s"] by simp

lemma enrichment_fields:
  assumes "map_option enrichment r = Some (enrichment old)"
  shows "map_option Customer.genderInferred r = Some (Customer.genderInferred old)"
    and "map_option Customer.genderConfidence r = Some (Customer.genderConfidence old)"
    and "map_option Customer.enrichmentStatus r = Some (Customer.enrichmentStatus old)"
  using assms by (cases r; simp add: enrichment_def)+

text \<open>
  Claim C2. Let a customer be stored with \<open>enrichmentStatus = complete\<close>. Whatever batch
  \<open>onBatch\<close> then processes, the same external id in it or not, and wherever an exception
  cuts the batch short, the stored \<open>genderInferred\<close> and \<open>genderConfidence\<close> of that
  customer are what they were and its status is still \<open>complete\<close>. The same holds of the
  table that any run of \<open>fetchAllCustomers\<close> with this callback leaves, whether the run
  ends with a count or with an exception.
\<close>

theorem sync_keeps_enrichment:
  assumes "getCustomerByShopifyId st i = Some old"
    and "Customer.enrichmentStatus old = Complete"
  shows "(let st' = fst (snd (onBatch faults now batch (st, n))) in
            map_option Customer.genderInferred (getCustomerByShopifyId st' i)
              = Some (Customer.genderInferred old) \<and>
            map_option Customer.genderConfidence (getCustomerByShopifyId st' i)
              = Some (Customer.genderConfidence old) \<and>
            map_option Customer.enrichmentStatus (getCustomerByShopifyId st' i) = Some Complete) \<and>
         (\<forall>y. fetchAllCustomers pf server since (Some (onBatch faults now)) cl (st, n) = Some y \<longrightarrow>
            (let st' = fst (snd (snd y)) in
               map_option Customer.genderInferred (getCustomerByShopifyId st' i)
                 = Some (Customer.genderInferred old) \<and>
               map_option Customer.genderConfidence (getCustomerByShopifyId st' i)
                 = Some (Customer.genderConfidence old) \<and>
               map_option Customer.enrichmentStatus (getCustomerByShopifyId st' i) = Some Complete))"
proof -
  have init: "map_option enrichment (getCustomerByShopifyId (fst (st, n)) i) = Some (enrichment old)"
    using assms(1) by simp
  have one: "map_option enrichment
      (getCustomerByShopifyId (fst (snd (onBatch faults now batch (st, n)))) i) = Some (enrichment old)"
    using init by (rule onBatch_keeps_state)
  have run: "map_option enrichment (getCustomerByShopifyId (fst (snd (snd y))) i)
      = Some (enrichment old)"
    if "fetchAllCustomers pf server since (Some (onBatch faults now)) cl (st, n) = Some y" for y
  proof (rule fetchLoop_preserves
      [where P = "\<lambda>s. map_option enrichment (getCustomerByShopifyId (fst s) i) = Some (enrichment old)"
         and f = "onBatch faults now"])
    show "map_option enrichment
            (getCustomerByShopifyId (fst (snd (onBatch faults now b s))) i) = Some (enrichment old)"
      if "map_option enrichment (getCustomerByShopifyId (fst s) i) = Some (enrichment old)" for b s
      using that by (rule onBatch_keeps_state)
    show "fetchLoop pf server since (Some (onBatch faults now)) None 0 cl (st, n) = Some y"
      using that by (simp add: fetchAllCustomers_def)
    show "Some (onBatch faults now) = Some (onBatch faults now)" by (rule refl)
    show "map_option enrichment (getCustomerByShopifyId (fst (st, n)) i) = Some (enrichment old)"
      by (rule init)
  qed
  show ?thesis
    unfolding Let_def
    using enrichment_fields [OF one] enrichment_fields [OF run] assms(2)
    by simp
qed

lemma wire_transformed: "transformCustomer constFloat wireCustomer = sampleFetched"
  by (simp add: transformCustomer_def wireCustomer_def sampleFetched_def constFloat_def)

lemma onBatch_single_ok:
  "fst (onBatch noFaults now [c] (st, n)) = None"
  by (simp add: noFaults_def Let_def)

lemma sample_run:
  "fetchAllCustomers constFloat (pagedSource [[wireCustomer]]) None (Some (onBatch noFaults 2000))
     newClient (sampleStore, zeroCounts)
   = Some (Inr 1, delay 500 (newClient\<lparr> sent := 1 \<rparr>),
           snd (onBatch noFaults 2000 [sampleFetched] (sampleStore, zeroCounts)))"
  unfolding fetchAllCustomers_def
  by (subst fetchLoop.simps)
     (simp add: pageRequest_def pageAnswer_def ok_def callOnBatch_def wire_transformed
        onBatch_single_ok parseRateLimitHeader_def nearLimit_def newClient_def
        del: onBatch.simps)

lemma sample_batch_row:
  "getCustomerByShopifyId (fst (snd (onBatch noFaults 2000 [sampleFetched] (sampleStore, zeroCounts)))) 7
   = Some (conflictSet 2000 (insertData (Some sampleRow) sampleFetched) sampleRow)"
proof -
  have sid: "TransformedCustomer.shopifyCustomerId sampleFetched = 7"
    by (simp add: sampleFetched_def)
  have sid': "InsertCustomer.shopifyCustomerId (insertData (Some sampleRow) sampleFetched) = 7"
    by (simp add: insertData_def sid)
  have "fst (snd (onBatch noFaults 2000 [sampleFetched] (sampleStore, zeroCounts)))
        = snd (upsertCustomer 2000 (insertData (Some sampleRow) sampleFetched) sampleStore)"
    by (simp add: noFaults_def Let_def sid sample_lookup)
  moreover have "fst (upsertCustomer 2000 (insertData (Some sampleRow) sampleFetched) sampleStore)
        = conflictSet 2000 (insertData (Some sampleRow) sampleFetched) sampleRow"
    by (simp add: upsertCustomer_def sid' sample_lookup)
  ultimately show ?thesis
    using upsertCustomer_stored [of 2000 "insertData (Some sampleRow) sampleFetched" sampleStore]
    by (simp add: sid')
qed

theorem sync_keeps_enrichment_witness:
  "getCustomerByShopifyId sampleStore 7 = Some sampleRow \<and>
   Customer.enrichmentStatus sampleRow = Complete \<and>
   map_option Customer.email
     (getCustomerByShopifyId
        (fst (snd (onBatch noFaults 2000 [sampleFetched] (sampleStore, zeroCounts)))) 7)
     = Some (Some ''ann@new.example'') \<and>
   map_option Customer.enrichmentStatus
     (getCustomerByShopifyId
        (fst (snd (onBatch noFaults 2000 [sampleFetched] (sampleStore, zeroCounts)))) 7)
     = Some Complete \<and>
   map_option fst
     (fetchAllCustomers constFloat (pagedSource [[wireCustomer]]) None (Some (onBatch noFaults 2000))
        newClient (sampleStore, zeroCounts))
     = Some (Inr 1) \<and>
   map_option Customer.genderInferred
     (getCustomerByShopifyId
        (fst (snd (snd (Inr 1 :: error + nat, delay 500 (newClient\<lparr> sent := 1 \<rparr>),
           snd (onBatch noFaults 2000 [sampleFetched] (sampleStore, zeroCounts)))))) 7)
     = Some (Some ''female'')"
proof -
  have h2: "Customer.enrichmentStatus sampleRow = Complete"
    by (simp add: sampleRow_def)
  have g: "Customer.genderInferred sampleRow = Some ''female''"
    by (simp add: sampleRow_def)
  have mail: "map_option Customer.email
     (getCustomerByShopifyId
        (fst (snd (onBatch noFaults 2000 [sampleFetched] (sampleStore, zeroCounts)))) 7)
     = Some (Some ''ann@new.example'')"
    unfolding sample_batch_row
    by (simp add: conflictSet_def insertData_def col_def sampleFetched_def)
  note keep = sync_keeps_enrichment [OF sample_lookup h2,
      of noFaults 2000 "[sampleFetched]" zeroCounts constFloat "pagedSource [[wireCustomer]]" None newClient,
      unfolded Let_def g]
  from keep have a: "map_option Customer.enrichmentStatus
     (getCustomerByShopifyId
        (fst (snd (onBatch noFaults 2000 [sampleFetched] (sampleStore, zeroCounts)))) 7)
     = Some Complete"
    by blast
  from keep sample_run have b: "map_option Customer.genderInferred
     (getCustomerByShopifyId
        (fst (snd (snd (Inr 1 :: error + nat, delay 500 (newClient\<lparr> sent := 1 \<rparr>),
           snd (onBatch noFaults 2000 [sampleFetched] (sampleStore, zeroCounts)))))) 7)
     = Some (Some ''female'')"
    by blast
  have c: "map_option fst
     (fetchAllCustomers constFloat (pagedSource [[wireCustomer]]) None (Some (onBatch noFaults 2000))
        newClient (sampleStore, zeroCounts))
     = Some (Inr 1)"
    unfolding sample_run by simp
  from sample_lookup h2 mail a b c show ?thesis by blast
qed

section \<open>Validation of the inference\<close>

lemma clamp_unit:
  assumes "c \<noteq> NaN"
  shows "inUnitInterval (mathMax (Fin 0) (mathMin (Fin 1) c))"
  using assms by (cases c) simp_all

lemma orZeroNumber_plain:
  assumes "plainConfidence v" and "orZeroNumber strNum v = Some c"
  shows "c \<noteq> NaN"
proof (cases v)
  case None
  with assms show ?thesis by auto
next
  case (Some j)
  with assms show ?thesis
  proof (cases j)
    case (JNum x)
    with Some assms show ?thesis by (cases x) auto
  qed auto
qed

lemma validated_gender: "gender (validated strNum v) \<in> set validGenders"
proof (cases v)
  case (JObj kv)
  show ?thesis
  proof (cases "orZeroNumber strNum (map_of kv ''confidence'')")
    case None
    with JObj show ?thesis by (simp add: unknownResult_def validGenders_def)
  next
    case (Some c)
    with JObj show ?thesis
      by (auto simp: validGenders_def split: option.splits json.splits)
  qed
qed (simp_all add: unknownResult_def validGenders_def)

lemma validated_not_object:
  assumes "\<And>kv. v \<noteq> JObj kv"
  shows "validated strNum v = unknownResult"
  using assms by (cases v) (auto simp: unknownResult_def)

lemma validated_plain:
  assumes "plainConfidence (map_of kv ''confidence'')"
  shows "inUnitInterval (confidence (validated strNum (JObj kv)))"
proof (cases "orZeroNumber strNum (map_of kv ''confidence'')")
  case None
  then show ?thesis by (simp add: unknownResult_def)
next
  case (Some c)
  with assms have "c \<noteq> NaN" by (rule orZeroNumber_plain)
  with Some show ?thesis by (simp add: clamp_unit)
qed

lemma validated_invalid_gender:
  assumes "\<And>g. map_of kv ''gender'' = Some (JStr g) \<Longrightarrow> g \<notin> set validGenders"
  shows "gender (validated strNum (JObj kv)) = ''unknown''"
proof (cases "orZeroNumber strNum (map_of kv ''confidence'')")
  case None
  then show ?thesis by (simp add: unknownResult_def)
next
  case (Some c)
  with assms show ?thesis
    by (auto split: option.splits json.splits)
qed

lemma validated_number:
  assumes "map_of kv ''confidence'' = Some (JNum (Fin x))"
  shows "confidence (validated strNum (JObj kv)) = Fin (max 0 (min 1 x))"
  using assms by simp

lemma inferGender_parsed:
  assumes "provider (f, l, e, c) = Content (Some content)" and "content \<noteq> []"
    and "jsonParse content = Some v"
  shows "inferGender jsonParse strNum provider f l e c = validated strNum v"
  using assms by (simp add: inferGender_def)

lemma inferGender_cases:
  "inferGender jsonParse strNum provider f l e c = unknownResult
   \<or> (\<exists>v. inferGender jsonParse strNum provider f l e c = validated strNum v)"
  by (auto simp: inferGender_def split: completion.splits option.splits)

text \<open>
  Claim C5, as the code has it. The gender \<open>inferGender\<close> returns is always one of the
  three. The result is \<open>{unknown, 0}\<close> when the call of the provider fails, when the content
  is \<open>null\<close> or empty, when it does not parse as JSON, and when it parses to anything but
  an object. For a parsed object: if its confidence is missing, \<open>null\<close>, a boolean or a
  number, the returned confidence lies in the unit interval, a finite number being clamped
  into it; and if its gender is not one of the three strings, the returned gender is
  \<open>unknown\<close>, while the confidence is still the clamped one of the reply.
\<close>

theorem inferGender_validation:
  "gender (inferGender jsonParse strNum provider f l e c) \<in> set validGenders \<and>
   (provider (f, l, e, c) = ApiFailure \<or> provider (f, l, e, c) = Content None
      \<or> provider (f, l, e, c) = Content (Some []) \<longrightarrow>
    inferGender jsonParse strNum provider f l e c = unknownResult) \<and>
   (\<forall>content. provider (f, l, e, c) = Content (Some content) \<and> jsonParse content = None \<longrightarrow>
      inferGender jsonParse strNum provider f l e c = unknownResult) \<and>
   (\<forall>content v. provider (f, l, e, c) = Content (Some content) \<and> content \<noteq> []
        \<and> jsonParse content = Some v \<and> (\<forall>kv. v \<noteq> JObj kv) \<longrightarrow>
      inferGender jsonParse strNum provider f l e c = unknownResult) \<and>
   (\<forall>content kv. provider (f, l, e, c) = Content (Some content) \<and> content \<noteq> []
        \<and> jsonParse content = Some (JObj kv) \<longrightarrow>
      (plainConfidence (map_of kv ''confidence'') \<longrightarrow>
         inUnitInterval (confidence (inferGender jsonParse strNum provider f l e c))) \<and>
      ((\<forall>g. map_of kv ''gender'' = Some (JStr g) \<longrightarrow> g \<notin> set validGenders) \<longrightarrow>
         gender (inferGender jsonParse strNum provider f l e c) = ''unknown'') \<and>
      (\<forall>x. map_of kv ''confidence'' = Some (JNum (Fin x)) \<longrightarrow>
         confidence (inferGender jsonParse strNum provider f l e c) = Fin (max 0 (min 1 x))))"
proof -
  have g: "gender (inferGender jsonParse strNum provider f l e c) \<in> set validGenders"
  proof -
    have "gender unknownResult \<in> set validGenders"
      by (simp add: unknownResult_def validGenders_def)
    with inferGender_cases [of jsonParse strNum provider f l e c] validated_gender [of strNum]
    show ?thesis by metis
  qed
  have fail: "inferGender jsonParse strNum provider f l e c = unknownResult"
    if "provider (f, l, e, c) = ApiFailure \<or> provider (f, l, e, c) = Content None
      \<or> provider (f, l, e, c) = Content (Some [])"
    using that by (auto simp: inferGender_def)
  have unparsed: "inferGender jsonParse strNum provider f l e c = unknownResult"
    if "provider (f, l, e, c) = Content (Some content)" and "jsonParse content = None" for content
    using that by (simp add: inferGender_def)
  have other: "inferGender jsonParse strNum provider f l e c = unknownResult"
    if "provider (f, l, e, c) = Content (Some content)" and "content \<noteq> []"
      and "jsonParse content = Some v" and "\<forall>kv. v \<noteq> JObj kv" for content v
    using that by (simp add: inferGender_parsed validated_not_object)
  have obj: "(plainConfidence (map_of kv ''confidence'') \<longrightarrow>
         inUnitInterval (confidence (inferGender jsonParse strNum provider f l e c))) \<and>
      ((\<forall>g. map_of kv ''gender'' = Some (JStr g) \<longrightarrow> g \<notin> set validGenders) \<longrightarrow>
         gender (inferGender jsonParse strNum provider f l e c) = ''unknown'') \<and>
      (\<forall>x. map_of kv ''confidence'' = Some (JNum (Fin x)) \<longrightarrow>
         confidence (inferGender jsonParse strNum provider f l e c) = Fin (max 0 (min 1 x)))"
    if "provider (f, l, e, c) = Content (Some content)" and "content \<noteq> []"
      and "jsonParse content = Some (JObj kv)" for content kv
    unfolding inferGender_parsed [of provider f l e c content jsonParse "JObj kv" strNum, OF that]
    using validated_plain [of kv strNum] validated_invalid_gender [of kv strNum]
      validated_number [of kv _ strNum]
    by blast
  from g fail unparsed other obj show ?thesis by blast
qed

theorem inferGender_validation_witness:
  "replyWith (Content (Some ''reply'')) (None, None, None, None) = Content (Some ''reply'') \<and>
   ''reply'' \<noteq> [] \<and>
   parseAs overconfidentReply ''reply''
     = Some (JObj [(''gender'', JStr ''male''), (''confidence'', JNum (Fin (17 / 10)))]) \<and>
   plainConfidence (map_of [(''gender'', JStr ''male''), (''confidence'', JNum (Fin (17 / 10)))]
                      ''confidence'') \<and>
   inUnitInterval (confidence (inferGender (parseAs overconfidentReply) noNumber
      (replyWith (Content (Some ''reply''))) None None None None)) \<and>
   confidence (inferGender (parseAs overconfidentReply) noNumber
      (replyWith (Content (Some ''reply''))) None None None None) = Fin 1 \<and>
   gender (inferGender (parseAs overconfidentReply) noNumber
      (replyWith (Content (Some ''reply''))) None None None None) = ''male''"
proof -
  have h1: "replyWith (Content (Some ''reply'')) (None, None, None, None) = Content (Some ''reply'')"
    by (simp add: replyWith_def)
  have h2: "''reply'' \<noteq> []" by simp
  have h3: "parseAs overconfidentReply ''reply''
     = Some (JObj [(''gender'', JStr ''male''), (''confidence'', JNum (Fin (17 / 10)))])"
    by (simp add: parseAs_def overconfidentReply_def)
  have h4: "plainConfidence (map_of [(''gender'', JStr ''male''), (''confidence'', JNum (Fin (17 / 10)))]
                      ''confidence'')"
    by simp
  have h5: "map_of [(''gender'', JStr ''male''), (''confidence'', JNum (Fin (17 / 10)))] ''confidence''
      = Some (JNum (Fin (17 / 10)))"
    by simp
  have m: "max 0 (min 1 (17 / 10 :: real)) = 1" by simp
  note v = inferGender_validation [of "parseAs overconfidentReply" noNumber
      "replyWith (Content (Some ''reply''))" None None None None]
  from v h1 h2 h3 h4 have a: "inUnitInterval (confidence (inferGender (parseAs overconfidentReply) noNumber
      (replyWith (Content (Some ''reply''))) None None None None))"
    by blast
  from v h1 h2 h3 h5 have "confidence (inferGender (parseAs overconfidentReply) noNumber
      (replyWith (Content (Some ''reply''))) None None None None) = Fin (max 0 (min 1 (17 / 10)))"
    by blast
  then have b: "confidence (inferGender (parseAs overconfidentReply) noNumber
      (replyWith (Content (Some ''reply''))) None None None None) = Fin 1"
    unfolding m .
  have c: "gender (inferGender (parseAs overconfidentReply) noNumber
      (replyWith (Content (Some ''reply''))) None None None None) = ''male''"
    by (simp add: inferGender_def replyWith_def parseAs_def overconfidentReply_def validGenders_def)
  from h1 h2 h3 h4 a b c show ?thesis by blast
qed

text \<open>
  The claim as it is written fails twice. A reply with a gender outside the three and
  confidence 0.9 gives \<open>{unknown, 0.9}\<close>, not \<open>{unknown, 0}\<close>. A reply whose confidence is
  an object gives a confidence that is not a number, which is not in the unit interval.
\<close>

theorem inferGender_validation_counterexample:
  "inferGender (parseAs robotReply) noNumber (replyWith (Content (Some ''reply''))) None None None None
     = \<lparr> gender = ''unknown'', confidence = Fin (9 / 10) \<rparr> \<and>
   inferGender (parseAs robotReply) noNumber (replyWith (Content (Some ''reply''))) None None None None
     \<noteq> unknownResult \<and>
   confidence (inferGender (parseAs objectConfidenceReply) noNumber
      (replyWith (Content (Some ''reply''))) None None None None) = NaN \<and>
   \<not> inUnitInterval (confidence (inferGender (parseAs objectConfidenceReply) noNumber
      (replyWith (Content (Some ''reply''))) None None None None))"
  by (simp add: inferGender_def replyWith_def parseAs_def robotReply_def objectConfidenceReply_def
      validGenders_def unknownResult_def)

section \<open>The invariant of the enrichment columns\<close>

lemma lookup_in_table:
  "getCustomerByShopifyId st k = Some e \<Longrightarrow> e \<in> set (customers st)"
  by (auto simp: getCustomerByShopifyId_def find_Some_iff)

lemma invariant_row:
  "enrichmentInvariant st \<Longrightarrow> e \<in> set (customers st) \<Longrightarrow>
   Customer.enrichmentStatus e = Complete \<Longrightarrow>
   Customer.genderInferred e \<noteq> None \<and> Customer.genderConfidence e \<noteq> None"
  by (simp add: enrichmentInvariant_def list_all_iff)

lemma list_all_map_if:
  "list_all P xs \<Longrightarrow> (\<And>r. P r \<Longrightarrow> P (g r)) \<Longrightarrow>
   list_all P (map (\<lambda>r. if c r then g r else r) xs)"
  by (induction xs) auto

lemma upsertCustomer_invariant:
  assumes inv: "enrichmentInvariant st"
    and payload: "InsertCustomer.enrichmentStatus p = Some Complete \<Longrightarrow>
       (\<exists>g. InsertCustomer.genderInferred p = Given (Some g)) \<and>
       (\<exists>c. InsertCustomer.genderConfidence p = Given (Some c))"
  shows "enrichmentInvariant (snd (upsertCustomer now p st))"
proof (cases "getCustomerByShopifyId st (InsertCustomer.shopifyCustomerId p)")
  case None
  have "Customer.enrichmentStatus (insertValues now k p) = Complete \<Longrightarrow>
        Customer.genderInferred (insertValues now k p) \<noteq> None \<and>
        Customer.genderConfidence (insertValues now k p) \<noteq> None" for k
    using payload by (auto simp: insertValues_def col_def colReal_def split: option.splits)
  with inv None show ?thesis
    by (simp add: upsertCustomer_def enrichmentInvariant_def)
next
  case (Some old)
  have "Customer.enrichmentStatus (conflictSet now p r) = Customer.enrichmentStatus r"
       "Customer.genderInferred (conflictSet now p r) = Customer.genderInferred r"
       "Customer.genderConfidence (conflictSet now p r) = Customer.genderConfidence r" for r
    by (simp_all add: conflictSet_def)
  with inv Some show ?thesis
    by (simp add: upsertCustomer_def enrichmentInvariant_def list_all_map_if)
qed

lemma insertData_payload:
  assumes "enrichmentInvariant st0"
    and "InsertCustomer.enrichmentStatus (insertData (getCustomerByShopifyId st0 k) c) = Some Complete"
  shows "(\<exists>g. InsertCustomer.genderInferred (insertData (getCustomerByShopifyId st0 k) c) = Given (Some g)) \<and>
         (\<exists>x. InsertCustomer.genderConfidence (insertData (getCustomerByShopifyId st0 k) c) = Given (Some x))"
proof (cases "getCustomerByShopifyId st0 k")
  case None
  with assms(2) show ?thesis by (simp add: insertData_def)
next
  case (Some e)
  with assms(2) have "Customer.enrichmentStatus e = Complete" by (simp add: insertData_def)
  with invariant_row [OF assms(1) lookup_in_table [OF Some]] Some show ?thesis
    by (auto simp: insertData_def)
qed

lemma insertDataInferring_payload:
  assumes "enrichmentInvariant st0"
    and "InsertCustomer.enrichmentStatus
           (insertDataInferring infer (getCustomerByShopifyId st0 k) c) = Some Complete"
  shows "(\<exists>g. InsertCustomer.genderInferred
                (insertDataInferring infer (getCustomerByShopifyId st0 k) c) = Given (Some g)) \<and>
         (\<exists>x. InsertCustomer.genderConfidence
                (insertDataInferring infer (getCustomerByShopifyId st0 k) c) = Given (Some x))"
proof (cases "shouldPersistInference
                (if shouldInfer (getCustomerByShopifyId st0 k) then Some (infer c) else None)")
  case True
  then show ?thesis
    by (auto simp: insertDataInferring_def Let_def shouldPersistInference_def split: if_splits)
next
  case False
  with assms(2)
  have "InsertCustomer.enrichmentStatus (insertData (getCustomerByShopifyId st0 k) c) = Some Complete"
    by (simp add: insertDataInferring_def Let_def)
  from insertData_payload [OF assms(1) this] False show ?thesis
    by (auto simp: insertDataInferring_def Let_def split: option.splits)
qed

lemma onBatchInferring_reachable:
  "reachable st \<Longrightarrow>
   reachable (fst (snd (onBatchInferring (inferFetched jsonParse strNum provider) faults now batch (st, n))))"
proof (induction batch arbitrary: st n)
  case Nil
  then show ?case by simp
next
  case (Cons c rest)
  have "reachable (snd (upsertCustomer now
          (insertDataInferring (inferFetched jsonParse strNum provider)
             (getCustomerByShopifyId st (TransformedCustomer.shopifyCustomerId c)) c) st))"
    using Cons.prems Cons.prems by (rule reachable.syncInferringUpsert)
  with Cons show ?case by (simp add: Let_def)
qed

lemma onBatchInferring_keeps:
  assumes "map_option enrichment (getCustomerByShopifyId st i) = Some e"
  shows "map_option enrichment
           (getCustomerByShopifyId (fst (snd (onBatchInferring infer faults now batch (st, n)))) i)
         = Some e"
  using assms
proof (induction batch arbitrary: st n)
  case Nil
  then show ?case by simp
next
  case (Cons customer rest)
  from Cons.prems obtain old where old: "getCustomerByShopifyId st i = Some old"
    and e: "enrichment old = e"
    by auto
  have "map_option enrichment
          (getCustomerByShopifyId (snd (upsertCustomer now c st)) i) = Some e" for c
    using upsertCustomer_frame [OF old] e by simp
  with Cons show ?case by (simp add: Let_def)
qed

lemma webhookData_payload:
  assumes "webhookData pf customer g x s = Some d"
  shows "InsertCustomer.enrichmentStatus d = Some s"
    and "InsertCustomer.genderInferred d = g"
    and "InsertCustomer.genderConfidence d = x"
  using assms by (auto simp: webhookData_def split: option.splits)

lemma enrichUpdate_invariant:
  "enrichmentInvariant st \<Longrightarrow> enrichmentInvariant (enrichUpdate now result k st)"
  by (simp add: enrichUpdate_def enrichmentInvariant_def list_all_map_if)

lemma markFailed_invariant:
  "enrichmentInvariant st \<Longrightarrow> enrichmentInvariant (markFailed now k st)"
  by (simp add: markFailed_def enrichmentInvariant_def list_all_map_if)

lemma resetAllEnrichments_invariant:
  "enrichmentInvariant (snd (resetAllEnrichments now st))"
  by (simp add: resetAllEnrichments_def enrichmentInvariant_def list_all_iff)

lemma reachable_invariant: "reachable st \<Longrightarrow> enrichmentInvariant st"
proof (induction rule: reachable.induct)
  case start
  show ?case by (simp add: enrichmentInvariant_def emptyStore_def)
next
  case (syncUpsert st0 st now c)
  show ?case
    using syncUpsert.IH(2) insertData_payload [OF syncUpsert.IH(1)]
    by (rule upsertCustomer_invariant)
next
  case (syncInferringUpsert st0 st now jsonParse strNum provider c)
  show ?case
    using syncInferringUpsert.IH(2) insertDataInferring_payload [OF syncInferringUpsert.IH(1)]
    by (rule upsertCustomer_invariant)
next
  case (webhookCreate st pf customer d now)
  show ?case
    using webhookCreate.IH webhookData_payload(1) [OF webhookCreate.hyps(2)]
    by (intro upsertCustomer_invariant) simp_all
next
  case (webhookUpdate st0 st existing customer pf d now)
  note p = webhookData_payload [OF webhookUpdate.hyps(4)]
  show ?case
  proof (rule upsertCustomer_invariant [OF webhookUpdate.IH(2)])
    assume c: "InsertCustomer.enrichmentStatus d = Some Complete"
    show "(\<exists>g. InsertCustomer.genderInferred d = Given (Some g)) \<and>
          (\<exists>x. InsertCustomer.genderConfidence d = Given (Some x))"
    proof (cases existing)
      case None
      with c p(1) show ?thesis by simp
    next
      case (Some e)
      with webhookUpdate.hyps(3) obtain k where "getCustomerByShopifyId st0 k = Some e"
        by (cases "WebhookCustomer.id' customer") auto
      then have "e \<in> set (customers st0)" by (rule lookup_in_table)
      moreover from c p(1) Some have "Customer.enrichmentStatus e = Complete" by simp
      ultimately show ?thesis
        using invariant_row [OF webhookUpdate.IH(1)] p(2,3) Some by auto
    qed
  qed
next
  case (enriched st0 st customer now jsonParse strNum provider)
  then show ?case by (simp add: enrichUpdate_invariant)
next
  case (enrichFailed st0 st customer now)
  then show ?case by (simp add: markFailed_invariant)
next
  case (reset st now)
  show ?case by (rule resetAllEnrichments_invariant)
qed

lemma onBatch_reachable:
  "reachable st \<Longrightarrow> reachable (fst (snd (onBatch faults now batch (st, n))))"
proof (induction batch arbitrary: st n)
  case Nil
  then show ?case by simp
next
  case (Cons c rest)
  have "reachable (snd (upsertCustomer now
          (insertData (getCustomerByShopifyId st (TransformedCustomer.shopifyCustomerId c)) c) st))"
    using Cons.prems Cons.prems by (rule reachable.syncUpsert)
  with Cons show ?case by (simp add: Let_def)
qed

lemma webhookCustomersCreate_reachable:
  "reachable st \<Longrightarrow> reachable (snd (webhookCustomersCreate env now sig raw customer st))"
  by (auto simp: webhookCustomersCreate_def split: option.splits intro: reachable.webhookCreate)

lemma webhookCustomersUpdate_reachable:
  assumes "reachable st"
  shows "reachable (snd (webhookCustomersUpdate env now sig raw customer st))"
proof (cases "checkSignature env sig raw")
  case (Some r)
  with assms show ?thesis by (simp add: webhookCustomersUpdate_def)
next
  case None
  define existing where
    "existing = Option.bind (WebhookCustomer.id' customer) (getCustomerByShopifyId st)"
  show ?thesis
  proof (cases "webhookData (floatOf env) customer
        (case existing of None \<Rightarrow> Omitted | Some e \<Rightarrow> Given (Customer.genderInferred e))
        (case existing of None \<Rightarrow> Omitted | Some e \<Rightarrow> Given (Customer.genderConfidence e))
        (case existing of None \<Rightarrow> Pending | Some e \<Rightarrow> Customer.enrichmentStatus e)")
    case no: None
    with None assms show ?thesis
      by (simp add: webhookCustomersUpdate_def existing_def Let_def)
  next
    case (Some d)
    have "reachable (snd (upsertCustomer now d st))"
      using assms assms existing_def Some by (rule reachable.webhookUpdate)
    with None Some show ?thesis
      by (simp add: webhookCustomersUpdate_def existing_def Let_def)
  qed
qed

lemma enrichLoop_reachable:
  assumes "reachable st0" and "reachable st" and "set cs \<subseteq> set (customers st0)"
  shows "reachable (snd (enrichLoop (inferCustomer jsonParse strNum provider) ws now cs k st))"
  using assms(2,3)
proof (induction cs arbitrary: k st)
  case Nil
  then show ?case by simp
next
  case (Cons c rest)
  from Cons.prems have c: "c \<in> set (customers st0)" and rest: "set rest \<subseteq> set (customers st0)"
    by simp_all
  have ok: "reachable (enrichUpdate now (inferCustomer jsonParse strNum provider c) (Customer.id' c) st)"
    using assms(1) Cons.prems(1) c by (rule reachable.enriched)
  have bad: "reachable (markFailed now (Customer.id' c) st)"
    using assms(1) Cons.prems(1) c by (rule reachable.enrichFailed)
  show ?case
    using Cons.IH [OF ok rest] Cons.IH [OF bad rest] Cons.prems(1)
    by (cases "ws c") simp_all
qed

lemma enrichPendingCustomers_reachable:
  assumes "reachable st"
  shows "reachable (snd (enrichPendingCustomers (inferCustomer jsonParse strNum provider) ws now k st))"
proof -
  have "set (take k (filter (\<lambda>r. Customer.enrichmentStatus r = Pending) (customers st)))
          \<subseteq> set (customers st)"
    using set_take_subset [of k "filter (\<lambda>r. Customer.enrichmentStatus r = Pending) (customers st)"]
    by auto
  from enrichLoop_reachable [OF assms assms this] assms show ?thesis
    by (simp add: enrichPendingCustomers_def Let_def)
qed

text \<open>
  Claim C8. In every table the writers can reach, a row whose status is \<open>complete\<close> has a
  gender and a confidence; and from such a table each writer as a whole (a batch of the
  sync with either callback, either webhook, an enrichment pass with any outcome of its
  writes, the reset) leaves a table of which the same is true.
\<close>

theorem writers_keep_enrichmentInvariant:
  assumes "reachable st"
  shows "enrichmentInvariant st \<and>
         enrichmentInvariant (fst (snd (onBatch faults now batch (st, n)))) \<and>
         enrichmentInvariant
           (fst (snd (onBatchInferring (inferFetched jsonParse strNum provider) faults now batch
                        (st, n)))) \<and>
         enrichmentInvariant (snd (webhookCustomersCreate env now sig raw customer st)) \<and>
         enrichmentInvariant (snd (webhookCustomersUpdate env now sig raw customer st)) \<and>
         enrichmentInvariant
           (snd (enrichPendingCustomers (inferCustomer jsonParse strNum provider) ws now k st)) \<and>
         enrichmentInvariant (snd (resetAllEnrichments now st))"
proof (intro conjI)
  show "enrichmentInvariant st"
    using assms by (rule reachable_invariant)
  show "enrichmentInvariant (fst (snd (onBatch faults now batch (st, n))))"
    using assms by (intro reachable_invariant onBatch_reachable)
  show "enrichmentInvariant
          (fst (snd (onBatchInferring (inferFetched jsonParse strNum provider) faults now batch
                       (st, n))))"
    using assms by (intro reachable_invariant onBatchInferring_reachable)
  show "enrichmentInvariant (snd (webhookCustomersCreate env now sig raw customer st))"
    using assms by (intro reachable_invariant webhookCustomersCreate_reachable)
  show "enrichmentInvariant (snd (webhookCustomersUpdate env now sig raw customer st))"
    using assms by (intro reachable_invariant webhookCustomersUpdate_reachable)
  show "enrichmentInvariant
          (snd (enrichPendingCustomers (inferCustomer jsonParse strNum provider) ws now k st))"
    using assms by (intro reachable_invariant enrichPendingCustomers_reachable)
  show "enrichmentInvariant (snd (resetAllEnrichments now st))"
    by (rule resetAllEnrichments_invariant)
qed

lemma afterCreate_rows:
  "map Customer.enrichmentStatus (customers afterCreate) = [Pending]"
  "map Customer.id' (customers afterCreate) = [1]"
  "map Customer.genderInferred (customers afterCreate) = [None]"
proof -
  have "checkSignature sampleEnv (Some ''c2lnbmVk'') ''{}'' = None"
    by (rule checkSignature_valid [where k = "''s3cret''"])
       (simp_all add: sampleEnv_def constDigest_def)
  then have "customers afterCreate
      = [insertValues 1000 1
           (the (webhookData (floatOf sampleEnv) sampleWebhook Omitted Omitted Pending))]"
    by (simp add: afterCreate_def webhookCustomersCreate_def webhookData_def sampleWebhook_def
        upsertCustomer_def getCustomerByShopifyId_def emptyStore_def)
  then show "map Customer.enrichmentStatus (customers afterCreate) = [Pending]"
    "map Customer.id' (customers afterCreate) = [1]"
    "map Customer.genderInferred (customers afterCreate) = [None]"
    by (simp_all add: insertValues_def webhookData_def sampleWebhook_def col_def)
qed

lemma afterCreate_reachable: "reachable afterCreate"
  unfolding afterCreate_def
  by (rule webhookCustomersCreate_reachable) (rule reachable.start)

theorem writers_keep_enrichmentInvariant_witness:
  "reachable afterCreate \<and>
   map Customer.enrichmentStatus (customers afterCreate) = [Pending] \<and>
   enrichmentInvariant
     (snd (enrichPendingCustomers
             (inferCustomer (parseAs overconfidentReply) noNumber (replyWith (Content (Some ''reply''))))
             allWritesOk 3000 10 afterCreate)) \<and>
   map enrichment
     (customers (snd (enrichPendingCustomers
             (inferCustomer (parseAs overconfidentReply) noNumber (replyWith (Content (Some ''reply''))))
             allWritesOk 3000 10 afterCreate)))
     = [(Some ''male'', Some (Fin 1), Complete)]"
proof -
  note inv = writers_keep_enrichmentInvariant [OF afterCreate_reachable,
      where jsonParse = "parseAs overconfidentReply" and strNum = noNumber
        and provider = "replyWith (Content (Some ''reply''))" and ws = allWritesOk
        and now = 3000 and k = 10,
      THEN conjunct2, THEN conjunct2, THEN conjunct2, THEN conjunct2, THEN conjunct2,
      THEN conjunct1]
  obtain r where rows: "customers afterCreate = [r]"
    using afterCreate_rows(1) by (cases "customers afterCreate") auto
  with afterCreate_rows have r: "Customer.enrichmentStatus r = Pending" "Customer.id' r = 1"
    by simp_all
  have res: "inferCustomer (parseAs overconfidentReply) noNumber (replyWith (Content (Some ''reply''))) r
      = \<lparr> gender = ''male'', confidence = Fin 1 \<rparr>"
    by (simp add: inferCustomer_def inferGender_def replyWith_def parseAs_def
        overconfidentReply_def validGenders_def)
  have e: "map enrichment
     (customers (snd (enrichPendingCustomers
             (inferCustomer (parseAs overconfidentReply) noNumber (replyWith (Content (Some ''reply''))))
             allWritesOk 3000 10 afterCreate)))
     = [(Some ''male'', Some (Fin 1), Complete)]"
    by (simp add: enrichPendingCustomers_def rows r allWritesOk_def enrichUpdate_def res
        enrichment_def single_1)
  from inv afterCreate_reachable afterCreate_rows(1) e show ?thesis by blast
qed

section \<open>The window of an incremental sync\<close>


























section \<open>Single flight\<close>

lemma suspended_single:
  assumes "singleFlight p" and "map_of (suspended p) c = Some ph"
  shows "suspended p = [(c, ph)]"
proof -
  from assms(2) have "(c, ph) \<in> set (suspended p)" by (rule map_of_SomeD)
  moreover from assms(1) have "length (suspended p) \<le> 1" by (simp add: singleFlight_def)
  ultimately show ?thesis
    by (cases "suspended p") auto
qed

lemma singleFlight_idle:
  "singleFlight p \<Longrightarrow> \<not> isSyncing p \<Longrightarrow> suspended p = []"
  by (simp add: singleFlight_def)

lemma step_singleFlight:
  assumes "singleFlight p" and "step e p = Some p'"
  shows "singleFlight p'"
proof (cases e)
  case (Call c incremental)
  with assms show ?thesis
    by (auto simp: singleFlight_def split: if_splits)
next
  case (CreateResolves c now)
  with assms(2) obtain inc where ph: "map_of (suspended p) c = Some (AwaitCreate inc)"
    by (auto split: option.splits phase.splits)
  note s = suspended_single [OF assms(1) ph]
  from assms CreateResolves ph s show ?thesis
    by (auto simp: singleFlight_def moveTo_def Let_def)
next
  case (CreateRejects c)
  with assms(2) obtain inc where ph: "map_of (suspended p) c = Some (AwaitCreate inc)"
    by (auto split: option.splits phase.splits)
  note s = suspended_single [OF assms(1) ph]
  from assms CreateRejects ph s show ?thesis
    by (auto simp: singleFlight_def leave_def)
next
  case (BodyResolves c counts)
  with assms(2) obtain k where ph: "map_of (suspended p) c = Some (AwaitBody k)"
    by (auto split: option.splits phase.splits)
  note s = suspended_single [OF assms(1) ph]
  from assms BodyResolves ph s show ?thesis
    by (auto simp: singleFlight_def moveTo_def)
next
  case (BodyRejects c err)
  with assms(2) obtain k where ph: "map_of (suspended p) c = Some (AwaitBody k)"
    by (auto split: option.splits phase.splits)
  note s = suspended_single [OF assms(1) ph]
  from assms BodyRejects ph s show ?thesis
    by (auto simp: singleFlight_def moveTo_def)
next
  case (MarkCompletedResolves c now)
  with assms(2) obtain k n where ph: "map_of (suspended p) c = Some (AwaitCompleted k n)"
    by (auto split: option.splits phase.splits)
  note s = suspended_single [OF assms(1) ph]
  from assms MarkCompletedResolves ph s show ?thesis
    by (auto simp: singleFlight_def leave_def)
next
  case (MarkCompletedRejects c)
  with assms(2) obtain k n where ph: "map_of (suspended p) c = Some (AwaitCompleted k n)"
    by (auto split: option.splits phase.splits)
  note s = suspended_single [OF assms(1) ph]
  from assms MarkCompletedRejects ph s show ?thesis
    by (auto simp: singleFlight_def moveTo_def)
next
  case (MarkFailedResolves c now)
  with assms(2) obtain k err where ph: "map_of (suspended p) c = Some (AwaitFailed k err)"
    by (auto split: option.splits phase.splits)
  note s = suspended_single [OF assms(1) ph]
  from assms MarkFailedResolves ph s show ?thesis
    by (auto simp: singleFlight_def leave_def)
next
  case (MarkFailedRejects c)
  with assms(2) obtain k err where ph: "map_of (suspended p) c = Some (AwaitFailed k err)"
    by (auto split: option.splits phase.splits)
  note s = suspended_single [OF assms(1) ph]
  from assms MarkFailedRejects ph s show ?thesis
    by (auto simp: singleFlight_def leave_def)
qed

lemma run_singleFlight:
  "singleFlight p \<Longrightarrow> run evs p = Some p' \<Longrightarrow> singleFlight p'"
proof (induction evs arbitrary: p)
  case Nil
  then show ?case by simp
next
  case (Cons e evs)
  from Cons.prems(2) obtain q where q: "step e p = Some q" and r: "run evs q = Some p'"
    by (auto split: option.splits)
  from Cons.prems(1) q have "singleFlight q" by (rule step_singleFlight)
  then show ?case using r by (rule Cons.IH)
qed

lemma owned_unfold:
  "runningIsOwned p \<longleftrightarrow>
     distinct (map SyncLog.id' (logRows (journal p))) \<and>
     (\<forall>l \<in> set (logRows (journal p)). SyncLog.id' l < logSeq (journal p)) \<and>
     (\<forall>l \<in> set (logRows (journal p)). SyncLog.status l = ''running'' \<longrightarrow>
        (\<exists>x \<in> set (suspended p). logOf (snd x) = Some (SyncLog.id' l)))"
  by (auto simp: runningIsOwned_def runningLogs_def list_all_iff list_ex_iff)

lemma at_most_one_with_key:
  assumes "distinct (map key xs)" and "\<And>x. x \<in> set xs \<Longrightarrow> P x \<Longrightarrow> key x = k"
  shows "length (filter P xs) \<le> 1"
  using assms
proof (induction xs)
  case Nil
  show ?case by simp
next
  case (Cons a xs)
  show ?case
  proof (cases "P a")
    case True
    have "filter P xs = []"
    proof (rule ccontr)
      assume "filter P xs \<noteq> []"
      then obtain y where y: "y \<in> set xs" "P y"
        by (auto simp: filter_empty_conv)
      with Cons.prems(2) [of y] Cons.prems(2) [of a] True have "key y = key a" by simp
      with y(1) Cons.prems(1) show False by (auto simp: image_iff)
    qed
    with True show ?thesis by simp
  next
    case False
    with Cons show ?thesis by simp
  qed
qed

lemma owned_at_most_one:
  assumes "singleFlight p" and "runningIsOwned p"
  shows "length (runningLogs p) \<le> 1"
proof (cases "suspended p")
  case Nil
  with assms(2) have "\<forall>l \<in> set (logRows (journal p)). SyncLog.status l \<noteq> ''running''"
    by (auto simp: owned_unfold)
  then have "runningLogs p = []"
    by (simp add: runningLogs_def filter_empty_conv)
  then show ?thesis by simp
next
  case (Cons x xs)
  with assms(1) have s: "suspended p = [x]" by (simp add: singleFlight_def)
  show ?thesis
  proof (cases "logOf (snd x)")
    case None
    with assms(2) s have "\<forall>l \<in> set (logRows (journal p)). SyncLog.status l \<noteq> ''running''"
      by (auto simp: owned_unfold)
    then have "runningLogs p = []"
      by (simp add: runningLogs_def filter_empty_conv)
    then show ?thesis by simp
  next
    case (Some k)
    from assms(2) have d: "distinct (map SyncLog.id' (logRows (journal p)))"
      by (simp add: owned_unfold)
    show ?thesis
      unfolding runningLogs_def
    proof (rule at_most_one_with_key [OF d])
      fix l assume "l \<in> set (logRows (journal p))" and "SyncLog.status l = ''running''"
      with assms(2) s Some show "SyncLog.id' l = k" by (auto simp: owned_unfold)
    qed
  qed
qed

lemma updateSyncLog_rows:
  "logRows (updateSyncLog k f j) = map (\<lambda>l. if SyncLog.id' l = k then f l else l) (logRows j)"
  "logSeq (updateSyncLog k f j) = logSeq j"
  by (simp_all add: updateSyncLog_def)

lemma close_log_owned:
  assumes o: "runningIsOwned p" and s: "suspended p = [(c, ph)]" and k: "logOf ph = Some k"
    and f: "\<And>l. SyncLog.id' (f l) = SyncLog.id' l" "\<And>l. SyncLog.status (f l) \<noteq> ''running''"
  shows "runningIsOwned (leave c outcome (p\<lparr> journal := updateSyncLog k f (journal p) \<rparr>))"
proof -
  have ids: "map SyncLog.id' (map (\<lambda>l. if SyncLog.id' l = k then f l else l) (logRows (journal p)))
      = map SyncLog.id' (logRows (journal p))"
    by (induction "logRows (journal p)") (simp_all add: f(1))
  have "SyncLog.status l \<noteq> ''running''"
    if "l \<in> set (map (\<lambda>l. if SyncLog.id' l = k then f l else l) (logRows (journal p)))" for l
  proof -
    from that obtain l0 where l0: "l0 \<in> set (logRows (journal p))"
      and l: "l = (if SyncLog.id' l0 = k then f l0 else l0)"
      by auto
    show ?thesis
    proof (cases "SyncLog.id' l0 = k")
      case True
      with l f(2) show ?thesis by simp
    next
      case False
      with o s k l0 have "SyncLog.status l0 \<noteq> ''running''"
        by (auto simp: owned_unfold)
      with l False show ?thesis by simp
    qed
  qed
  moreover have "\<forall>l \<in> set (map (\<lambda>l. if SyncLog.id' l = k then f l else l) (logRows (journal p))).
      SyncLog.id' l < logSeq (journal p)"
    using o f(1) by (auto simp: owned_unfold)
  ultimately show ?thesis
    using o unfolding owned_unfold
    by (simp add: leave_def updateSyncLog_rows ids del: map_map set_map)
qed

lemma idle_no_running:
  assumes "runningIsOwned p"
    and "suspended p = [] \<or> (\<exists>c inc. suspended p = [(c, AwaitCreate inc)])"
  shows "\<forall>l \<in> set (logRows (journal p)). SyncLog.status l \<noteq> ''running''"
  using assms by (auto simp: owned_unfold)

lemma step_owned:
  assumes sf: "singleFlight p" and o: "runningIsOwned p" and st: "step e p = Some p'"
    and ok: "\<not> isMarkFailedRejects e"
  shows "runningIsOwned p'"
proof (cases e)
  case (Call c incremental)
  show ?thesis
  proof (cases "isSyncing p")
    case True
    with st Call o show ?thesis
      by (auto simp: owned_unfold split: if_splits)
  next
    case False
    with sf have "suspended p = []" by (rule singleFlight_idle)
    with idle_no_running [OF o] st Call False o show ?thesis
      by (auto simp: owned_unfold split: if_splits)
  qed
next
  case (CreateResolves c now)
  with st obtain inc where ph: "map_of (suspended p) c = Some (AwaitCreate inc)"
    by (auto split: option.splits phase.splits)
  note s = suspended_single [OF sf ph]
  from idle_no_running [OF o] s
  have none: "\<forall>l \<in> set (logRows (journal p)). SyncLog.status l \<noteq> ''running''" by blast
  from o have lt: "\<forall>l \<in> set (logRows (journal p)). SyncLog.id' l < logSeq (journal p)"
    and d: "distinct (map SyncLog.id' (logRows (journal p)))"
    by (simp_all add: owned_unfold)
  from lt have fresh: "logSeq (journal p) \<notin> SyncLog.id' ` set (logRows (journal p))"
    by auto
  from st CreateResolves ph s none lt d fresh show ?thesis
    unfolding owned_unfold
    by (auto simp: moveTo_def createSyncLog_def Let_def less_Suc_eq)
next
  case (CreateRejects c)
  with st obtain inc where ph: "map_of (suspended p) c = Some (AwaitCreate inc)"
    by (auto split: option.splits phase.splits)
  note s = suspended_single [OF sf ph]
  from idle_no_running [OF o] s
  have none: "\<forall>l \<in> set (logRows (journal p)). SyncLog.status l \<noteq> ''running''" by blast
  from st CreateRejects ph s none o show ?thesis
    unfolding owned_unfold by (auto simp: leave_def)
next
  case (BodyResolves c counts)
  with st obtain k where ph: "map_of (suspended p) c = Some (AwaitBody k)"
    by (auto split: option.splits phase.splits)
  note s = suspended_single [OF sf ph]
  from st BodyResolves ph s o show ?thesis
    unfolding owned_unfold by (auto simp: moveTo_def)
next
  case (BodyRejects c err)
  with st obtain k where ph: "map_of (suspended p) c = Some (AwaitBody k)"
    by (auto split: option.splits phase.splits)
  note s = suspended_single [OF sf ph]
  from st BodyRejects ph s o show ?thesis
    unfolding owned_unfold by (auto simp: moveTo_def)
next
  case (MarkCompletedResolves c now)
  with st obtain k n where ph: "map_of (suspended p) c = Some (AwaitCompleted k n)"
    by (auto split: option.splits phase.splits)
  note s = suspended_single [OF sf ph]
  have "runningIsOwned (leave c (Inr n)
          (p\<lparr> journal := updateSyncLog k
                (\<lambda>l. l\<lparr> SyncLog.status := ''completed'',
                         customersProcessed := Some (processed n),
                         customersCreated := Some (created n),
                         customersUpdated := Some (updated n),
                         completedAt := Some now \<rparr>) (journal p) \<rparr>))"
    using o s by (rule close_log_owned) simp_all
  with st MarkCompletedResolves ph show ?thesis by simp
next
  case (MarkCompletedRejects c)
  with st obtain k n where ph: "map_of (suspended p) c = Some (AwaitCompleted k n)"
    by (auto split: option.splits phase.splits)
  note s = suspended_single [OF sf ph]
  from st MarkCompletedRejects ph s o show ?thesis
    unfolding owned_unfold by (auto simp: moveTo_def)
next
  case (MarkFailedResolves c now)
  with st obtain k err where ph: "map_of (suspended p) c = Some (AwaitFailed k err)"
    by (auto split: option.splits phase.splits)
  note s = suspended_single [OF sf ph]
  have "runningIsOwned (leave c (Inl err)
          (p\<lparr> journal := updateSyncLog k
                (\<lambda>l. l\<lparr> SyncLog.status := ''failed'', errorMessage := Some err,
                         completedAt := Some now \<rparr>) (journal p) \<rparr>))"
    using o s by (rule close_log_owned) simp_all
  with st MarkFailedResolves ph show ?thesis by simp
next
  case (MarkFailedRejects c)
  with ok show ?thesis by simp
qed

lemma run_owned:
  "singleFlight p \<Longrightarrow> runningIsOwned p \<Longrightarrow> logsGetClosed evs \<Longrightarrow> run evs p = Some p'
     \<Longrightarrow> runningIsOwned p'"
proof (induction evs arbitrary: p)
  case Nil
  then show ?case by simp
next
  case (Cons e evs)
  from Cons.prems(4) obtain q where q: "step e p = Some q" and r: "run evs q = Some p'"
    by (auto split: option.splits)
  from Cons.prems(3) have e: "\<not> isMarkFailedRejects e" and rest: "logsGetClosed evs"
    by (simp_all add: logsGetClosed_def)
  from Cons.prems(1) q have sf: "singleFlight q" by (rule step_singleFlight)
  from Cons.prems(1,2) q e have "runningIsOwned q" by (rule step_owned)
  with sf show ?case using rest r by (rule Cons.IH)
qed

lemma startProcess_singleFlight: "singleFlight (startProcess logs)"
  by (simp add: singleFlight_def startProcess_def)

text \<open>
  A process that starts on a sync log with no row in state \<open>running\<close> owns every running
  log.
\<close>

lemma startProcess_owned:
  "runningIsOwned (startProcess logs) \<longleftrightarrow>
     distinct (map SyncLog.id' (logRows logs)) \<and>
     (\<forall>l \<in> set (logRows logs). SyncLog.id' l < logSeq logs) \<and>
     (\<forall>l \<in> set (logRows logs). SyncLog.status l \<noteq> ''running'')"
  by (auto simp: owned_unfold startProcess_def)

lemma freshProcess_invariants: "singleFlight freshProcess" "runningIsOwned freshProcess"
  by (simp_all add: singleFlight_def owned_unfold freshProcess_def noLogs_def)

text \<open>
  Claim C1, as the code has it. Take a state of the process in which at most one call of
  \<open>syncCustomers\<close> is past the check of \<open>isSyncing\<close> and the flag is set exactly while one
  is, as it is when the module has been loaded. After any sequence of calls and of settled
  promises from there: at most one call is past the check, and the flag is set exactly
  while one is; a call made while the flag is set returns
  \<open>{processed: 0, created: 0, updated: 0}\<close> and changes neither the flag nor the sync log
  nor the suspended call. At most one sync log is in state \<open>running\<close> under two conditions:
  at the start every log in state \<open>running\<close> is the log of the call that is past the
  check, so that a process that starts idle finds no log in state \<open>running\<close>; and no
  \<open>updateSyncLog\<close> of the \<open>catch\<close> has been rejected by the store.
\<close>

theorem syncCustomers_single_flight:
  assumes "singleFlight p0" and "run evs p0 = Some p"
  shows "length (suspended p) \<le> 1 \<and>
         (isSyncing p \<longleftrightarrow> suspended p \<noteq> []) \<and>
         (isSyncing p \<and> c \<notin> fst ` set (suspended p) \<and> c \<notin> fst ` set (finished p) \<longrightarrow>
            step (Call c incremental) p
              = Some (p\<lparr> finished := finished p @ [(c, Inr zeroCounts)] \<rparr>)) \<and>
         (runningIsOwned p0 \<and> logsGetClosed evs \<longrightarrow> length (runningLogs p) \<le> 1)"
proof -
  have sf: "singleFlight p"
    using assms by (rule run_singleFlight)
  have "length (runningLogs p) \<le> 1" if "runningIsOwned p0 \<and> logsGetClosed evs"
  proof -
    from that have o: "runningIsOwned p0" and closed: "logsGetClosed evs" by simp_all
    have "runningIsOwned p"
      using assms(1) o closed assms(2) by (rule run_owned)
    with sf show ?thesis by (rule owned_at_most_one)
  qed
  with sf show ?thesis by (simp add: singleFlight_def)
qed

lemma overlapTrace_run:
  "run overlapTrace (startProcess logsOnce)
   = Some \<lparr> isSyncing = True,
            journal =
              \<lparr> logRows =
                  [\<lparr> SyncLog.id' = 1, syncType = ''incremental'', SyncLog.status = ''completed'',
                      customersProcessed = Some 3, customersCreated = Some 3,
                      customersUpdated = Some 0, errorMessage = None, startedAt = 1000000,
                      completedAt = Some 1600000 \<rparr>,
                   \<lparr> SyncLog.id' = 2, syncType = ''incremental'', SyncLog.status = ''completed'',
                      customersProcessed = Some 2, customersCreated = Some 1,
                      customersUpdated = Some 1, errorMessage = None, startedAt = 100,
                      completedAt = Some 150 \<rparr>,
                   \<lparr> SyncLog.id' = 3, syncType = ''full'', SyncLog.status = ''running'',
                      customersProcessed = Some 0, customersCreated = Some 0,
                      customersUpdated = Some 0, errorMessage = None, startedAt = 200,
                      completedAt = None \<rparr>],
                logSeq = 4 \<rparr>,
            suspended = [(3, AwaitBody 3)],
            finished = [(2, Inr zeroCounts), (1, Inr \<lparr> processed = 2, created = 1, updated = 1 \<rparr>)] \<rparr>"
  by (simp add: overlapTrace_def startProcess_def logsOnce_def createSyncLog_def moveTo_def
      leave_def updateSyncLog_def zeroCounts_def Let_def)

theorem syncCustomers_single_flight_witness:
  "singleFlight (startProcess logsOnce) \<and>
   runningIsOwned (startProcess logsOnce) \<and>
   logsGetClosed overlapTrace \<and>
   map_option finished (run overlapTrace (startProcess logsOnce))
     = Some [(2, Inr zeroCounts), (1, Inr \<lparr> processed = 2, created = 1, updated = 1 \<rparr>)] \<and>
   map_option (map SyncLog.status \<circ> logRows \<circ> journal) (run overlapTrace (startProcess logsOnce))
     = Some [''completed'', ''completed'', ''running''] \<and>
   map_option (\<lambda>p. length (runningLogs p) \<le> 1) (run overlapTrace (startProcess logsOnce))
     = Some True \<and>
   map_option isSyncing (run overlapTrace (startProcess logsOnce)) = Some True"
proof -
  have sf: "singleFlight (startProcess logsOnce)"
    by (rule startProcess_singleFlight)
  have owned: "runningIsOwned (startProcess logsOnce)"
    by (simp add: startProcess_owned logsOnce_def)
  have closed: "logsGetClosed overlapTrace"
    by (simp add: logsGetClosed_def overlapTrace_def)
  note one = syncCustomers_single_flight [OF sf overlapTrace_run,
      THEN conjunct2, THEN conjunct2, THEN conjunct2, THEN mp, OF conjI, OF owned closed]
  have a: "map_option (\<lambda>p. length (runningLogs p) \<le> 1) (run overlapTrace (startProcess logsOnce))
      = Some True"
    unfolding overlapTrace_run using one by simp
  have b: "map_option finished (run overlapTrace (startProcess logsOnce))
     = Some [(2, Inr zeroCounts), (1, Inr \<lparr> processed = 2, created = 1, updated = 1 \<rparr>)]"
    "map_option (map SyncLog.status \<circ> logRows \<circ> journal) (run overlapTrace (startProcess logsOnce))
     = Some [''completed'', ''completed'', ''running'']"
    "map_option isSyncing (run overlapTrace (startProcess logsOnce)) = Some True"
    unfolding overlapTrace_run by simp_all
  from sf owned closed a b show ?thesis by blast
qed

text \<open>
  The claim as it is written fails. The first run fails in its body, and the update that
  would mark its log \<open>failed\<close> is rejected; the \<open>finally\<close> clears the flag, and the log
  stays \<open>running\<close>. The second trigger then starts a run, whose log is the second one in
  state \<open>running\<close>. The same happens with no rejected update in a process that starts on
  the sync log of a process killed during a run: its first trigger creates the second log
  in state \<open>running\<close>.
\<close>

theorem syncCustomers_two_running_counterexample:
  "map_option (map SyncLog.status \<circ> logRows \<circ> journal) (run staleLogTrace freshProcess)
     = Some [''running'', ''running''] \<and>
   map_option (length \<circ> runningLogs) (run staleLogTrace freshProcess) = Some 2 \<and>
   map_option suspended (run staleLogTrace freshProcess) = Some [(2, AwaitBody 2)] \<and>
   logsGetClosed restartTrace \<and>
   map_option (map SyncLog.status \<circ> logRows \<circ> journal) (run restartTrace (startProcess killedRunLogs))
     = Some [''running'', ''running''] \<and>
   map_option (length \<circ> runningLogs) (run restartTrace (startProcess killedRunLogs)) = Some 2"
  by (simp add: staleLogTrace_def freshProcess_def noLogs_def createSyncLog_def moveTo_def
      leave_def runningLogs_def Let_def restartTrace_def startProcess_def killedRunLogs_def
      logsGetClosed_def)
end
